theory Spec2Isabelle
  imports Complex_Main "HOL-Library.AList"
begin

section \<open>Text: characters, trimming and the keyword patterns\<close>

text \<open>
  A line of the buffer is a \<open>string\<close>; the buffer is the list of its lines and
  \<open>lineAt(i).text\<close> is the \<open>i\<close>-th element. JavaScript's \<open>xs[i]\<close> is
  \<open>undefined\<close> out of range, which is \<open>None\<close> here.
\<close>

definition elemAt :: "'a list \<Rightarrow> nat \<Rightarrow> 'a option" where
  "elemAt xs i = (if i < length xs then Some (xs ! i) else None)"

text \<open>\<open>xs[i]\<close> for a JavaScript number \<open>i\<close> that may be negative.\<close>

definition atInt :: "'a list \<Rightarrow> int \<Rightarrow> 'a option" where
  "atInt xs i = (if 0 \<le> i then elemAt xs (nat i) else None)"

text \<open>\<open>Array.prototype.indexOf\<close>: the first index of the value; \<open>-1\<close> is \<open>None\<close>.\<close>

fun indexOf :: "'a list \<Rightarrow> 'a \<Rightarrow> nat option" where
  "indexOf [] v = None"
| "indexOf (x # xs) v = (if x = v then Some 0 else map_option Suc (indexOf xs v))"

definition quote :: char where
  "quote = CHR 0x22"

definition comma :: char where
  "comma = CHR '',''"

text \<open>White space as \<open>String.prototype.trim\<close> and the pattern \<open>\s\<close> see it, among
  the characters below 256.\<close>

definition isSpace :: "char \<Rightarrow> bool" where
  "isSpace c = (c \<in> set [CHR 0x09, CHR 0x0A, CHR 0x0B, CHR 0x0C, CHR 0x0D, CHR 0x20, CHR 0xA0])"

definition trim :: "string \<Rightarrow> string" where
  "trim s = rev (dropWhile isSpace (rev (dropWhile isSpace s)))"

text \<open>Case folding of the \<open>i\<close> flag: only the ASCII letters fold onto ASCII letters.\<close>

definition upper :: "char \<Rightarrow> char" where
  "upper c = (case map_of (zip ''abcdefghijklmnopqrstuvwxyz'' ''ABCDEFGHIJKLMNOPQRSTUVWXYZ'') c of
                Some u \<Rightarrow> u | None \<Rightarrow> c)"

text \<open>The patterns \<open>/^"HEADING"/i\<close>, \<open>/^"UNIT"/i\<close>, \<open>/^"TYPE"/i\<close>, \<open>/^"DATA"/i\<close> and
  \<open>/^"GROUP"/i\<close>: the text starts with the keyword between double quotes, in any case.\<close>

definition matchKeyword :: "string \<Rightarrow> string \<Rightarrow> bool" where
  "matchKeyword kw s =
     (length kw + 2 \<le> length s \<and>
      map upper (take (length kw + 2) s) = quote # kw @ [quote])"

text \<open>The class \<open>[A-Z0-9_]\<close> under the \<open>i\<close> flag.\<close>

definition isIdentChar :: "char \<Rightarrow> bool" where
  "isIdentChar c = (upper c \<in> set ''ABCDEFGHIJKLMNOPQRSTUVWXYZ0123456789_'')"

text \<open>
  \<open>/^"GROUP"\s*,\s*"([A-Z0-9_]+)"/i\<close>: the keyword, a comma with optional white space
  around it, and a quoted name of one or more identifier characters. The result is the
  captured name. The greedy \<open>+\<close> takes the longest run of identifier characters; a
  shorter run cannot be followed by the closing quote, so backtracking adds no match.
\<close>

definition matchGroup :: "string \<Rightarrow> string option" where
  "matchGroup s =
     (if \<not> matchKeyword ''GROUP'' s then None
      else case dropWhile isSpace (drop 7 s) of
        [] \<Rightarrow> None
      | c # r1 \<Rightarrow>
          if c \<noteq> comma then None
          else (case dropWhile isSpace r1 of
                  [] \<Rightarrow> None
                | q # r2 \<Rightarrow>
                    if q \<noteq> quote then None
                    else let name = takeWhile isIdentChar r2; r3 = dropWhile isIdentChar r2
                         in if name \<noteq> [] \<and> r3 \<noteq> [] \<and> hd r3 = quote then Some name else None))"

section \<open>Field Extractor\<close>

text \<open>
  \<open>extractQuotedFields\<close> collects the first capture of every match of \<open>/"([^"]*?)"/g\<close>:
  from the next double quote, the text up to the following double quote. A match starts
  at a quote and ends at the next one, and the search resumes after it; a last quote
  with no partner matches nothing.
\<close>

function extractQuotedFields :: "string \<Rightarrow> string list" where
  "extractQuotedFields line =
     (case dropWhile (\<lambda>c. c \<noteq> quote) line of
        [] \<Rightarrow> []
      | _ # r \<Rightarrow>
          (case dropWhile (\<lambda>c. c \<noteq> quote) r of
             [] \<Rightarrow> []
           | _ # r' \<Rightarrow> takeWhile (\<lambda>c. c \<noteq> quote) r # extractQuotedFields r'))"
  by pat_completeness auto
termination
proof (relation "measure length", goal_cases)
  case 1
  show ?case by simp
next
  case (2 line x r y r')
  have "length (dropWhile (\<lambda>c. c \<noteq> quote) r) \<le> length r"
    by (rule length_dropWhile_le)
  moreover have "length (dropWhile (\<lambda>c. c \<noteq> quote) line) \<le> length line"
    by (rule length_dropWhile_le)
  ultimately show ?case using 2 by simp
qed

declare extractQuotedFields.simps [simp del]

section \<open>Position Index: column at a position\<close>

text \<open>
  \<open>getColumnAtPosition\<close>: the loop \<open>for (i = 0; i < charPosition && i < line.length; i++)\<close>
  with its two variables \<open>column\<close> and \<open>inQuotes\<close>. The offset is a JavaScript number,
  so it may be negative.
\<close>

function columnLoop :: "string \<Rightarrow> int \<Rightarrow> nat \<Rightarrow> nat \<Rightarrow> bool \<Rightarrow> nat" where
  "columnLoop line charPosition i column inQuotes =
     (if int i < charPosition \<and> i < length line then
        (if line ! i = quote then columnLoop line charPosition (i + 1) column (\<not> inQuotes)
         else if line ! i = comma \<and> \<not> inQuotes
              then columnLoop line charPosition (i + 1) (column + 1) inQuotes
              else columnLoop line charPosition (i + 1) column inQuotes)
      else column)"
  by pat_completeness auto
termination
  by (relation "measure (\<lambda>(line, p, i, c, q). length line - i)") auto

declare columnLoop.simps [simp del]

definition getColumnAtPosition :: "string \<Rightarrow> int \<Rightarrow> nat" where
  "getColumnAtPosition line charPosition = columnLoop line charPosition 0 0 False"

text \<open>
  The specification's wording, as a definition of its own: the commas strictly before
  the offset that lie outside quoted spans, a position being outside when an even number
  of double quotes precedes it.
\<close>

definition outsideQuotes :: "string \<Rightarrow> nat \<Rightarrow> bool" where
  "outsideQuotes line i = even (length (filter (\<lambda>c. c = quote) (take i line)))"

definition commasOutsideQuotesBefore :: "string \<Rightarrow> int \<Rightarrow> nat" where
  "commasOutsideQuotesBefore line charPosition =
     length (filter (\<lambda>i. int i < charPosition \<and> line ! i = comma \<and> outsideQuotes line i)
               [0 ..< length line])"

section \<open>Document Parser\<close>

text \<open>
  \<open>ParsedGroup\<close> as the source declares it; its field \<open>line\<close> is \<open>gline\<close> here.
  \<open>headingLine\<close> starts at \<open>-1\<close>. \<open>ParsedDocument.groups\<close> is a JavaScript \<open>Map\<close>:
  an association list in insertion order, where \<open>set\<close> on a present key replaces the
  value in place (\<open>AList.update\<close>) and on a new key appends.
\<close>

record ParsedGroup =
  name :: string
  gline :: nat
  headings :: "string list"
  headingLine :: int
  dataCount :: nat
  units :: "string list"
  types :: "string list"
  data :: "string list list"

record ParsedDocument =
  groups :: "(string \<times> ParsedGroup) list"
  version :: "string option"

text \<open>
  The parser's local variables: \<open>groups\<close>, \<open>version\<close> and \<open>currentGroup\<close> (here
  \<open>pCurrentGroup\<close>). In the source \<open>currentGroup\<close> is a reference to the object stored
  in \<open>groups\<close> under its name: it was stored there when it was created, and a later
  \<open>set\<close> under the same name also replaces \<open>currentGroup\<close>. A write through
  \<open>currentGroup\<close> is therefore a write to that entry of the map, which \<open>store\<close> does.
\<close>

record ParserState = ParsedDocument +
  pCurrentGroup :: "ParsedGroup option"

definition store :: "ParsedGroup \<Rightarrow> ParserState \<Rightarrow> ParserState" where
  "store g st = st\<lparr>groups := AList.update (name g) g (groups st), pCurrentGroup := Some g\<rparr>"

text \<open>The version capture: \<open>fields[agsIndex + 1]\<close> (here \<open>flds\<close>) must exist and be a
  non-empty string.\<close>

definition captureVersion :: "ParsedGroup \<Rightarrow> string list \<Rightarrow> ParserState \<Rightarrow> ParserState" where
  "captureVersion g flds st =
     (case indexOf (headings g) ''TRAN_AGS'' of
        None \<Rightarrow> st
      | Some agsIndex \<Rightarrow>
          (case elemAt flds (agsIndex + 1) of
             None \<Rightarrow> st
           | Some v \<Rightarrow> if v \<noteq> [] then st\<lparr>version := Some v\<rparr> else st))"

text \<open>The body of the loop of \<open>parseDocument\<close> for line \<open>i\<close> with text \<open>lineText\<close>.\<close>

definition parseLine :: "nat \<Rightarrow> string \<Rightarrow> ParserState \<Rightarrow> ParserState" where
  "parseLine i lineText st =
     (let trimmed = trim lineText in
      if trimmed = [] then st
      else case matchGroup trimmed of
        Some nm \<Rightarrow>
          store \<lparr>name = nm, gline = i, headings = [], headingLine = - 1, dataCount = 0,
                 units = [], types = [], data = []\<rparr> st
      | None \<Rightarrow>
          (case pCurrentGroup st of
             None \<Rightarrow> st
           | Some g \<Rightarrow>
               if matchKeyword ''HEADING'' trimmed then
                 store (g\<lparr>headingLine := int i, headings := drop 1 (extractQuotedFields trimmed)\<rparr>) st
               else if matchKeyword ''UNIT'' trimmed then
                 store (g\<lparr>units := drop 1 (extractQuotedFields trimmed)\<rparr>) st
               else if matchKeyword ''TYPE'' trimmed then
                 store (g\<lparr>types := drop 1 (extractQuotedFields trimmed)\<rparr>) st
               else if matchKeyword ''DATA'' trimmed then
                 (let dataFields = extractQuotedFields trimmed;
                      g' = g\<lparr>data := data g @ [drop 1 dataFields], dataCount := dataCount g + 1\<rparr>;
                      st' = store g' st
                  in if name g' = ''TRAN'' then captureVersion g' (extractQuotedFields trimmed) st'
                     else st')
               else st))"

fun parseLines :: "nat \<Rightarrow> string list \<Rightarrow> ParserState \<Rightarrow> ParserState" where
  "parseLines i [] st = st"
| "parseLines i (lineText # rest) st = parseLines (i + 1) rest (parseLine i lineText st)"

definition initialState :: ParserState where
  "initialState = \<lparr>groups = [], version = None, pCurrentGroup = None\<rparr>"

definition parseDocument :: "string list \<Rightarrow> ParsedDocument" where
  "parseDocument document =
     (let st = parseLines 0 document initialState
      in \<lparr>groups = groups st, version = version st\<rparr>)"

section \<open>Summary Aggregator\<close>

text \<open>
  JavaScript numbers as far as \<open>generateSummary\<close> uses them on depths: \<open>NaN\<close>, the two
  infinities and the finite values. The finite doubles are real numbers and
  \<open>Math.min\<close>, \<open>Math.max\<close> select one of their arguments, so no rounding occurs in this
  function; the only rounding is inside \<open>parseFloat\<close>, a builtin, which is a parameter
  \<open>pf\<close> of the model.
\<close>

datatype number = NaN | NegInfinity | Finite real | Infinity

fun numLe :: "number \<Rightarrow> number \<Rightarrow> bool" where
  "numLe NaN _ = False"
| "numLe _ NaN = False"
| "numLe NegInfinity _ = True"
| "numLe _ Infinity = True"
| "numLe (Finite x) (Finite y) = (x \<le> y)"
| "numLe _ _ = False"

definition mathMin :: "number \<Rightarrow> number \<Rightarrow> number" where
  "mathMin a b = (if a = NaN \<or> b = NaN then NaN else if numLe a b then a else b)"

definition mathMax :: "number \<Rightarrow> number \<Rightarrow> number" where
  "mathMax a b = (if a = NaN \<or> b = NaN then NaN else if numLe a b then b else a)"

text \<open>\<open>parseFloat(row[k])\<close>: \<open>parseFloat(undefined)\<close> is \<open>NaN\<close>.\<close>

definition parseFloatAt :: "(string \<Rightarrow> number) \<Rightarrow> string list \<Rightarrow> nat \<Rightarrow> number" where
  "parseFloatAt pf row k = (case elemAt row k of None \<Rightarrow> NaN | Some v \<Rightarrow> pf v)"

record GroupCount =
  gcName :: string
  gcCount :: nat
  description :: "string option"

text \<open>
  The first loop of \<open>generateSummary\<close>, as far as \<open>groupCounts\<close> and \<open>totalRecords\<close>
  go (its tally \<open>recordsByLocation\<close> feeds neither). \<open>dict\<close> is the dictionary's
  \<open>groups\<close> table.
\<close>

fun countGroups :: "(string \<Rightarrow> string option) \<Rightarrow> (string \<times> ParsedGroup) list \<Rightarrow>
    GroupCount list \<times> nat \<Rightarrow> GroupCount list \<times> nat" where
  "countGroups dict [] acc = acc"
| "countGroups dict ((groupName, grp) # rest) (groupCounts, totalRecords) =
     countGroups dict rest
       (groupCounts @ [\<lparr>gcName = groupName, gcCount = dataCount grp, description = dict groupName\<rparr>],
        totalRecords + dataCount grp)"

text \<open>
  \<open>groupCounts.sort((a, b) => b.count - a.count)\<close>. \<open>Array.prototype.sort\<close> is a
  builtin, required since ECMAScript 2019 to be a stable sort by the comparator; it is
  modelled by insertion sort, which places an element before the first later element
  that the comparator does not put in front of it.
\<close>

fun insertCmp :: "('a \<Rightarrow> 'a \<Rightarrow> int) \<Rightarrow> 'a \<Rightarrow> 'a list \<Rightarrow> 'a list" where
  "insertCmp cmp x [] = [x]"
| "insertCmp cmp x (y # ys) = (if cmp x y \<le> 0 then x # y # ys else y # insertCmp cmp x ys)"

definition sortCmp :: "('a \<Rightarrow> 'a \<Rightarrow> int) \<Rightarrow> 'a list \<Rightarrow> 'a list" where
  "sortCmp cmp xs = foldr (insertCmp cmp) xs []"

definition byCountDesc :: "GroupCount \<Rightarrow> GroupCount \<Rightarrow> int" where
  "byCountDesc a b = int (gcCount b) - int (gcCount a)"

text \<open>
  The body of the loop over the rows of the group GEOL. \<open>depthRangesByLocation\<close> is a
  \<open>Map\<close> from location identifier to \<open>{min, max}\<close>, a pair here. An index is \<open>None\<close>
  where \<open>indexOf\<close> gave \<open>-1\<close>. \<open>if (locaId)\<close> holds for a defined, non-empty string.
\<close>

definition geolRow :: "(string \<Rightarrow> number) \<Rightarrow> nat \<Rightarrow> nat option \<Rightarrow> nat option \<Rightarrow>
    (string \<times> number \<times> number) list \<Rightarrow> string list \<Rightarrow> (string \<times> number \<times> number) list" where
  "geolRow pf locaIdIndex topIndex baseIndex ranges row =
     (let topV = (case topIndex of Some t \<Rightarrow> parseFloatAt pf row t | None \<Rightarrow> NaN);
          baseV = (case baseIndex of Some b \<Rightarrow> parseFloatAt pf row b | None \<Rightarrow> NaN)
      in case elemAt row locaIdIndex of
           None \<Rightarrow> ranges
         | Some locaId \<Rightarrow>
             if locaId = [] then ranges
             else
               (let existing = map_of ranges locaId;
                    min0 = (case existing of Some r \<Rightarrow> fst r | None \<Rightarrow> Infinity);
                    max0 = (case existing of Some r \<Rightarrow> snd r | None \<Rightarrow> NegInfinity);
                    min1 = (if topV \<noteq> NaN then mathMin min0 topV else min0);
                    max1 = (if topV \<noteq> NaN then mathMax max0 topV else max0);
                    min2 = (if baseV \<noteq> NaN then mathMin min1 baseV else min1);
                    max2 = (if baseV \<noteq> NaN then mathMax max1 baseV else max1)
                in if min2 \<noteq> Infinity \<or> max2 \<noteq> NegInfinity then
                     AList.update locaId
                       (if min2 = Infinity then Finite 0 else min2,
                        if max2 = NegInfinity then Finite 0 else max2) ranges
                   else ranges))"

definition depthRangesByLocation :: "(string \<Rightarrow> number) \<Rightarrow> ParsedDocument \<Rightarrow>
    (string \<times> number \<times> number) list" where
  "depthRangesByLocation pf parsed =
     (case map_of (groups parsed) ''GEOL'' of
        None \<Rightarrow> []
      | Some geolGroup \<Rightarrow>
          (let topIndex = indexOf (headings geolGroup) ''GEOL_TOP'';
               baseIndex = indexOf (headings geolGroup) ''GEOL_BASE''
           in case indexOf (headings geolGroup) ''LOCA_ID'' of
                None \<Rightarrow> []
              | Some locaIdIndex \<Rightarrow>
                  if topIndex \<noteq> None \<or> baseIndex \<noteq> None
                  then foldl (geolRow pf locaIdIndex topIndex baseIndex) [] (data geolGroup)
                  else []))"

text \<open>
  \<open>LocationInfo\<close>; its fields \<open>id\<close> and \<open>type\<close> are \<open>locId\<close> and \<open>locType\<close> here.
  An optional field is \<open>None\<close> where the source has \<open>undefined\<close>.
\<close>

record LocationInfo =
  locId :: string
  locType :: "string option"
  easting :: "string option"
  northing :: "string option"
  finalDepth :: "string option"
  depthMin :: "number option"
  depthMax :: "number option"

definition fieldAt :: "string list \<Rightarrow> nat option \<Rightarrow> string option" where
  "fieldAt row k = (case k of None \<Rightarrow> None | Some j \<Rightarrow> elemAt row j)"

text \<open>
  The loop over the rows of the group LOCA, as far as \<open>locations\<close> goes (the fold into
  \<open>locationsByType\<close> does not feed it). \<open>id\<close> is the empty string when the group has
  no column LOCA_ID.
\<close>

definition locaRow :: "(string \<times> number \<times> number) list \<Rightarrow> ParsedGroup \<Rightarrow> string list \<Rightarrow>
    LocationInfo list" where
  "locaRow ranges locaGroup row =
     (let idV = (case indexOf (headings locaGroup) ''LOCA_ID'' of
                   Some k \<Rightarrow> elemAt row k | None \<Rightarrow> Some []);
          depthRange = (case idV of Some i \<Rightarrow> map_of ranges i | None \<Rightarrow> None)
      in case idV of
           None \<Rightarrow> []
         | Some i \<Rightarrow>
             if i = [] then []
             else [\<lparr>locId = i,
                    locType = fieldAt row (indexOf (headings locaGroup) ''LOCA_TYPE''),
                    easting = fieldAt row (indexOf (headings locaGroup) ''LOCA_NATE''),
                    northing = fieldAt row (indexOf (headings locaGroup) ''LOCA_NATN''),
                    finalDepth = fieldAt row (indexOf (headings locaGroup) ''LOCA_FDEP''),
                    depthMin = map_option fst depthRange,
                    depthMax = map_option snd depthRange\<rparr>])"

text \<open>
  \<open>AGSSummary\<close> without its two maps \<open>locationsByType\<close> and \<open>recordsByLocation\<close>,
  which nothing below reads.
\<close>

record AGSSummary =
  totalGroups :: nat
  totalRecords :: nat
  groupCounts :: "GroupCount list"
  locations :: "LocationInfo list"

definition generateSummary :: "(string \<Rightarrow> string option) \<Rightarrow> (string \<Rightarrow> number) \<Rightarrow>
    ParsedDocument \<Rightarrow> AGSSummary" where
  "generateSummary dict pf parsed =
     (let counted = countGroups dict (groups parsed) ([], 0);
          ranges = depthRangesByLocation pf parsed
      in \<lparr>totalGroups = length (groups parsed),
          totalRecords = snd counted,
          groupCounts = sortCmp byCountDesc (fst counted),
          locations = (case map_of (groups parsed) ''LOCA'' of
                         None \<Rightarrow> []
                       | Some locaGroup \<Rightarrow> concat (map (locaRow ranges locaGroup) (data locaGroup)))\<rparr>)"

section \<open>Table Synchronization Engine\<close>

text \<open>
  The state of \<open>AGSTableViewProvider\<close> that its handlers read and write: whether the
  panel exists, the bound document (its lines) and \<open>currentGroup\<close>. The HTML written
  to the panel is not modelled. A line number that the source reports as \<open>-1\<close> is
  \<open>None\<close>.
\<close>

record TableView =
  panel :: bool
  currentDocument :: "string list option"
  currentGroup :: "string option"

text \<open>The row types \<open>"HEADING"\<close>, \<open>"UNIT"\<close>, \<open>"TYPE"\<close> and \<open>"DATA"\<close> of the messages.\<close>

datatype RowType = rHEADING | rUNIT | rTYPE | rDATA

record CellEditMessage =
  rowType :: RowType
  rowIndex :: int
  colIndex :: int
  oldValue :: string
  newValue :: string

text \<open>\<open>if (!this.currentGroup)\<close>: \<open>undefined\<close> and the empty string are both falsy.\<close>

definition falsy :: "string option \<Rightarrow> bool" where
  "falsy v = (v = None \<or> v = Some [])"

text \<open>\<open>parsed.groups.keys().next().value\<close>: the first key, \<open>undefined\<close> for an empty map.\<close>

definition firstGroup :: "ParsedDocument \<Rightarrow> string option" where
  "firstGroup parsed = (case groups parsed of [] \<Rightarrow> None | kv # _ \<Rightarrow> Some (fst kv))"

definition updateContent :: "TableView \<Rightarrow> TableView" where
  "updateContent s =
     (case currentDocument s of
        None \<Rightarrow> s
      | Some document \<Rightarrow>
          if \<not> panel s then s
          else (let parsed = parseDocument document
                in if falsy (currentGroup s) \<or> map_of (groups parsed) (the (currentGroup s)) = None
                   then s\<lparr>currentGroup := firstGroup parsed\<rparr>
                   else s))"

definition handleSelectGroup :: "TableView \<Rightarrow> string \<Rightarrow> TableView" where
  "handleSelectGroup s groupName = updateContent (s\<lparr>currentGroup := Some groupName\<rparr>)"

text \<open>
  \<open>findFirstDataLine\<close>: the loop from \<open>group.line\<close> while
  \<open>i < lineCount && i < group.line + 10\<close>. The patterns are tried on the line as it
  is, not trimmed.
\<close>

function firstDataLoop :: "string list \<Rightarrow> nat \<Rightarrow> nat \<Rightarrow> nat option" where
  "firstDataLoop document limit i =
     (if i < length document \<and> i < limit then
        (if matchKeyword ''DATA'' (document ! i) then Some i
         else firstDataLoop document limit (i + 1))
      else None)"
  by pat_completeness auto
termination
  by (relation "measure (\<lambda>(d, limit, i). limit - i)") auto

declare firstDataLoop.simps [simp del]

definition findFirstDataLine :: "string list \<Rightarrow> ParsedGroup \<Rightarrow> nat option" where
  "findFirstDataLine document grp = firstDataLoop document (gline grp + 10) (gline grp)"

text \<open>
  \<open>getLineNumber\<close>: the loop from \<open>group.line\<close> while
  \<open>i < lineCount && i < group.line + group.dataCount + 10\<close>, with its variables
  \<open>unitLine\<close>, \<open>typeLine\<close> and \<open>dataLines\<close>; the \<open>break\<close> returns them as they are.
\<close>

function lineScan :: "string list \<Rightarrow> nat \<Rightarrow> nat \<Rightarrow> nat \<Rightarrow> nat option \<Rightarrow> nat option \<Rightarrow> nat list \<Rightarrow>
    nat option \<times> nat option \<times> nat list" where
  "lineScan document groupLine limit i unitLine typeLine dataLines =
     (if i < length document \<and> i < limit then
        (if matchKeyword ''UNIT'' (document ! i) \<and> unitLine = None then
           lineScan document groupLine limit (i + 1) (Some i) typeLine dataLines
         else if matchKeyword ''TYPE'' (document ! i) \<and> typeLine = None then
           lineScan document groupLine limit (i + 1) unitLine (Some i) dataLines
         else if matchKeyword ''DATA'' (document ! i) then
           lineScan document groupLine limit (i + 1) unitLine typeLine (dataLines @ [i])
         else if matchKeyword ''GROUP'' (document ! i) \<and> i > groupLine then
           (unitLine, typeLine, dataLines)
         else lineScan document groupLine limit (i + 1) unitLine typeLine dataLines)
      else (unitLine, typeLine, dataLines))"
  by pat_completeness auto
termination
  by (relation "measure (\<lambda>(d, gl, limit, i, u, t, ds). limit - i)") auto

declare lineScan.simps [simp del]

text \<open>
  The parameter \<open>rowType\<close> of \<open>getLineNumber\<close> has the type \<open>"UNIT" | "TYPE" | "DATA"\<close>;
  for \<open>rHEADING\<close>, which that type excludes, the model gives no line.
  \<open>dataLines[rowIndex] ?? -1\<close> is \<open>atInt\<close>.
\<close>

definition getLineNumber :: "string list \<Rightarrow> ParsedGroup \<Rightarrow> RowType \<Rightarrow> int \<Rightarrow> nat option" where
  "getLineNumber document grp rt ri =
     (case lineScan document (gline grp) (gline grp + dataCount grp + 10) (gline grp) None None [] of
        (unitLine, typeLine, dataLines) \<Rightarrow>
          (case rt of
             rUNIT \<Rightarrow> unitLine
           | rTYPE \<Rightarrow> typeLine
           | rDATA \<Rightarrow> atInt dataLines ri
           | rHEADING \<Rightarrow> None))"

text \<open>
  \<open>getCellRange\<close>. The inner loop runs to the next double quote or to the end of the
  line; the outer loop walks the line with \<open>i\<close> and \<open>fieldIndex\<close>. The result is the
  range \<open>(lineNumber, contentStart, lineNumber, contentEnd)\<close>, written as the triple
  of the line and the two character offsets; \<open>null\<close> is \<open>None\<close>.
\<close>

function closingQuote :: "string \<Rightarrow> nat \<Rightarrow> nat" where
  "closingQuote line i =
     (if i < length line \<and> line ! i \<noteq> quote then closingQuote line (i + 1) else i)"
  by pat_completeness auto
termination
  by (relation "measure (\<lambda>(line, i). length line - i)") auto

declare closingQuote.simps [simp del]

function cellRangeLoop :: "string \<Rightarrow> nat \<Rightarrow> int \<Rightarrow> nat \<Rightarrow> nat \<Rightarrow> (nat \<times> nat \<times> nat) option" where
  "cellRangeLoop line lineNumber targetFieldIndex i fieldIndex =
     (if i < length line \<and> int fieldIndex \<le> targetFieldIndex then
        (if line ! i = quote then
           (let contentStart = i + 1;
                contentEnd = closingQuote line contentStart
            in if int fieldIndex = targetFieldIndex
               then Some (lineNumber, contentStart, contentEnd)
               else cellRangeLoop line lineNumber targetFieldIndex (contentEnd + 1) (fieldIndex + 1))
         else cellRangeLoop line lineNumber targetFieldIndex (i + 1) fieldIndex)
      else None)"
  by pat_completeness auto
termination
proof (relation "measure (\<lambda>(line, n, t, i, f). length line - i)", goal_cases)
  case 1
  show ?case by simp
next
  case (2 line lineNumber targetFieldIndex i fieldIndex contentStart contentEnd)
  have "j \<le> closingQuote line j" for j
    by (induction line j rule: closingQuote.induct)
       (subst closingQuote.simps, auto simp: Suc_leD)
  from this [of "i + 1"] 2 show ?case by auto
next
  case 3
  then show ?case by auto
qed

declare cellRangeLoop.simps [simp del]

definition getCellRange :: "string \<Rightarrow> nat \<Rightarrow> int \<Rightarrow> (nat \<times> nat \<times> nat) option" where
  "getCellRange line lineNumber ci = cellRangeLoop line lineNumber (ci + 1) 0 0"

text \<open>
  \<open>handleCellEdit\<close> up to the edit it builds: \<open>cellEdit\<close> is the replacement
  \<open>(range, newValue)\<close> handed to \<open>applyEdit\<close>, or \<open>None\<close> where the handler returns
  before building one. \<open>applyEdit\<close> replaces the characters of the range on its line;
  the new value comes from a one-line input field. \<open>handleCellEdit\<close> is the handler's
  effect on the bound document.
\<close>

definition cellEdit :: "TableView \<Rightarrow> CellEditMessage \<Rightarrow> ((nat \<times> nat \<times> nat) \<times> string) option" where
  "cellEdit s message =
     (case currentDocument s of
        None \<Rightarrow> None
      | Some document \<Rightarrow>
          if falsy (currentGroup s) then None
          else (case map_of (groups (parseDocument document)) (the (currentGroup s)) of
                  None \<Rightarrow> None
                | Some grp \<Rightarrow>
                    (case getLineNumber document grp (rowType message) (rowIndex message) of
                       None \<Rightarrow> None
                     | Some lineNumber \<Rightarrow>
                         (case getCellRange (document ! lineNumber) lineNumber (colIndex message) of
                            None \<Rightarrow> None
                          | Some r \<Rightarrow> Some (r, newValue message)))))"

definition applyEdit :: "(nat \<times> nat \<times> nat) \<times> string \<Rightarrow> string list \<Rightarrow> string list" where
  "applyEdit e document =
     (case e of ((lineNumber, contentStart, contentEnd), v) \<Rightarrow>
        document[lineNumber := take contentStart (document ! lineNumber) @ v @
                                drop contentEnd (document ! lineNumber)])"

definition handleCellEdit :: "TableView \<Rightarrow> CellEditMessage \<Rightarrow> TableView" where
  "handleCellEdit s message =
     (case cellEdit s message of
        None \<Rightarrow> s
      | Some e \<Rightarrow> s\<lparr>currentDocument := map_option (applyEdit e) (currentDocument s)\<rparr>)"

text \<open>
  \<open>findGroupForLine\<close>: the group with the greatest \<open>line\<close> among those with
  \<open>line <= lineNumber\<close>, the earlier one on equal lines.
\<close>

fun groupLoop :: "(string \<times> ParsedGroup) list \<Rightarrow> nat \<Rightarrow> ParsedGroup option \<Rightarrow> ParsedGroup option" where
  "groupLoop [] lineNumber cur = cur"
| "groupLoop ((k, grp) # rest) lineNumber cur =
     groupLoop rest lineNumber
       (if gline grp \<le> lineNumber
        then (case cur of
                None \<Rightarrow> Some grp
              | Some c \<Rightarrow> if gline grp > gline c then Some grp else cur)
        else cur)"

definition findGroupForLine :: "ParsedDocument \<Rightarrow> nat \<Rightarrow> ParsedGroup option" where
  "findGroupForLine parsed lineNumber = groupLoop (groups parsed) lineNumber None"

text \<open>
  \<open>syncWithEditor\<close>. The editor is given by whether it shows the bound document and by
  the line of its cursor, which is a line of the document. The result is the new state
  and the \<open>highlight\<close> message posted to the view, if any: its fields are \<open>rowType\<close> and
  \<open>rowIndex\<close> and nothing else.
\<close>

record Editor =
  showsCurrentDocument :: bool
  activeLine :: nat

definition highlightFor :: "string list \<Rightarrow> ParsedGroup \<Rightarrow> nat \<Rightarrow> (RowType \<times> int) option" where
  "highlightFor document grp lineNumber =
     (let lineText = document ! lineNumber in
      if matchKeyword ''HEADING'' lineText then Some (rHEADING, 0)
      else if matchKeyword ''UNIT'' lineText then Some (rUNIT, 0)
      else if matchKeyword ''TYPE'' lineText then Some (rTYPE, 0)
      else if matchKeyword ''DATA'' lineText then
        (case findFirstDataLine document grp of
           None \<Rightarrow> None
         | Some firstDataLine \<Rightarrow>
             (let ri = int lineNumber - int firstDataLine
              in if ri \<ge> 0 then Some (rDATA, ri) else None))
      else None)"

definition syncWithEditor :: "TableView \<Rightarrow> Editor \<Rightarrow> TableView \<times> (RowType \<times> int) option" where
  "syncWithEditor s editor =
     (case currentDocument s of
        None \<Rightarrow> (s, None)
      | Some document \<Rightarrow>
          if \<not> panel s then (s, None)
          else if \<not> showsCurrentDocument editor then (s, None)
          else (case findGroupForLine (parseDocument document) (activeLine editor) of
                  None \<Rightarrow> (s, None)
                | Some grp \<Rightarrow>
                    ((if currentGroup s \<noteq> Some (name grp)
                      then updateContent (s\<lparr>currentGroup := Some (name grp)\<rparr>)
                      else s),
                     highlightFor document grp (activeLine editor))))"

text \<open>
  The specification's wording for the ordinal of a data row, as a definition of its own:
  the number of data-row lines from the group's first data line up to, and not
  counting, the cursor's line, so that the first data row has ordinal 0.
\<close>

definition dataOrdinal :: "string list \<Rightarrow> nat \<Rightarrow> nat \<Rightarrow> nat" where
  "dataOrdinal document firstDataLine lineNumber =
     length (filter (\<lambda>i. matchKeyword ''DATA'' (document ! i)) [firstDataLine ..< lineNumber])"

text \<open>
  Two notions used to state what \<open>getCellRange\<close> does on a line whose last double
  quote has no partner: the number of double quotes of a text, and the offset just after
  its last double quote.
\<close>

definition quoteCount :: "string \<Rightarrow> nat" where
  "quoteCount s = length (filter (\<lambda>c. c = quote) s)"

definition afterLastQuote :: "string \<Rightarrow> nat" where
  "afterLastQuote line = length line - length (takeWhile (\<lambda>c. c \<noteq> quote) (rev line))"

section \<open>Notions used to state the properties\<close>

text \<open>
  The names of the group declarations of a document, line by line as the parser reads
  them, and the order of first occurrence in a list: each element is appended unless it
  was seen before.
\<close>

definition groupNames :: "string list \<Rightarrow> string list" where
  "groupNames document =
     concat (map (\<lambda>l. if trim l = [] then []
                        else (case matchGroup (trim l) of None \<Rightarrow> [] | Some nm \<Rightarrow> [nm])) document)"

definition firstOccurrences :: "'a list \<Rightarrow> 'a list" where
  "firstOccurrences xs = foldl (\<lambda>seen x. if x \<in> set seen then seen else seen @ [x]) [] xs"

text \<open>The entry that the first loop of \<open>generateSummary\<close> pushes for one group.\<close>

definition entryOf :: "(string \<Rightarrow> string option) \<Rightarrow> string \<times> ParsedGroup \<Rightarrow> GroupCount" where
  "entryOf dict kv = \<lparr>gcName = fst kv, gcCount = dataCount (snd kv), description = dict (fst kv)\<rparr>"

text \<open>
  Two invariants of the parser's loop: every stored group, and the current one, has
  \<open>dataCount\<close> equal to the number of its rows; and the current group is stored under
  its name.
\<close>

definition countsAgree :: "ParserState \<Rightarrow> bool" where
  "countsAgree st \<longleftrightarrow>
     list_all (\<lambda>kv. dataCount (snd kv) = length (data (snd kv))) (groups st) \<and>
     (case pCurrentGroup st of None \<Rightarrow> True | Some g \<Rightarrow> dataCount g = length (data g))"

definition currentStored :: "ParserState \<Rightarrow> bool" where
  "currentStored st \<longleftrightarrow>
     (case pCurrentGroup st of None \<Rightarrow> True | Some g \<Rightarrow> name g \<in> set (map fst (groups st)))"

text \<open>
  The range that results from widening an existing range, or none, by one finite depth.
\<close>

definition widenBy :: "(number \<times> number) option \<Rightarrow> real \<Rightarrow> number \<times> number" where
  "widenBy existing v =
     (case existing of
        None \<Rightarrow> (Finite v, Finite v)
      | Some r \<Rightarrow> (mathMin (fst r) (Finite v), mathMax (snd r) (Finite v)))"

text \<open>The top and base values that the loop over GEOL reads from a row.\<close>

definition depthAt :: "(string \<Rightarrow> number) \<Rightarrow> string list \<Rightarrow> nat option \<Rightarrow> number" where
  "depthAt pf row k = (case k of Some j \<Rightarrow> parseFloatAt pf row j | None \<Rightarrow> NaN)"

text \<open>An invariant of that loop: a stored minimum is not \<open>Infinity\<close>, a stored maximum
  not \<open>-Infinity\<close>.\<close>

definition storedRanges :: "(string \<times> number \<times> number) list \<Rightarrow> bool" where
  "storedRanges ranges = list_all (\<lambda>e. fst (snd e) \<noteq> Infinity \<and> snd (snd e) \<noteq> NegInfinity) ranges"

text \<open>
  What a line contributes to the format version, given the parser's state before it:
  the field aligned with the column TRAN_AGS of a data row read while the current group
  is named TRAN, when that field exists and is not empty; otherwise nothing.
\<close>

definition capturedVersion :: "ParserState \<Rightarrow> string \<Rightarrow> string option" where
  "capturedVersion st lineText =
     (case pCurrentGroup st of
        None \<Rightarrow> None
      | Some g \<Rightarrow>
          if name g = ''TRAN'' \<and> matchKeyword ''DATA'' (trim lineText) then
            (case indexOf (headings g) ''TRAN_AGS'' of
               None \<Rightarrow> None
             | Some k \<Rightarrow>
                 (case elemAt (extractQuotedFields (trim lineText)) (k + 1) of
                    None \<Rightarrow> None
                  | Some v \<Rightarrow> if v = [] then None else Some v))
          else None)"

text \<open>
  The window of the re-scan of \<open>getLineNumber\<close>, in the specification's words: from the
  group's start line, over at most \<open>dataCount + 10\<close> lines and not past the end of the
  document, and stopping at the first later line that declares a group.
  \<open>windowDataLines\<close> are the data-row lines in that window.
\<close>

definition scanStop :: "string list \<Rightarrow> nat \<Rightarrow> nat \<Rightarrow> nat \<Rightarrow> nat" where
  "scanStop document groupLine limit i =
     (case filter (\<lambda>j. groupLine < j \<and> matchKeyword ''GROUP'' (document ! j))
             [i ..< min (length document) limit] of
        [] \<Rightarrow> max i (min (length document) limit)
      | j # _ \<Rightarrow> j)"

definition windowDataLines :: "string list \<Rightarrow> ParsedGroup \<Rightarrow> nat list" where
  "windowDataLines document grp =
     filter (\<lambda>i. matchKeyword ''DATA'' (document ! i))
       [gline grp ..< scanStop document (gline grp) (gline grp + dataCount grp + 10) (gline grp)]"

text \<open>
  Everything of a group but the contents of its rows, and the relation between two
  parser states that agree on it: the same groups in the same order, and the same
  current group, up to the contents of the rows and the format version.
\<close>

definition shapeOf :: "ParsedGroup \<Rightarrow> string \<times> nat \<times> string list \<times> int \<times> nat \<times> string list \<times> string list" where
  "shapeOf g = (name g, gline g, headings g, headingLine g, dataCount g, units g, types g)"

definition sameShape :: "ParserState \<Rightarrow> ParserState \<Rightarrow> bool" where
  "sameShape st st' \<longleftrightarrow>
     map (\<lambda>kv. (fst kv, shapeOf (snd kv))) (groups st) =
       map (\<lambda>kv. (fst kv, shapeOf (snd kv))) (groups st') \<and>
     map_option shapeOf (pCurrentGroup st) = map_option shapeOf (pCurrentGroup st')"

section \<open>Example documents\<close>

text \<open>
  A document with one location and its two geology rows, and a \<open>parseFloat\<close> that
  reads the three depths of that document and the literal \<open>Infinity\<close>, and nothing
  else.
\<close>

definition geologyDocument :: "string list" where
  \<open>geologyDocument =
     [''"GROUP","LOCA"'', ''"HEADING","LOCA_ID","LOCA_TYPE"'', ''"DATA","BH1","BH"'', '''',
      ''"GROUP","GEOL"'', ''"HEADING","LOCA_ID","GEOL_TOP","GEOL_BASE"'',
      ''"DATA","BH1","0.00","1.50"'', ''"DATA","BH1","1.50","3.00"'']\<close>

definition parseDepth :: "string \<Rightarrow> number" where
  "parseDepth s =
     (if s = ''0.00'' then Finite 0
      else if s = ''1.50'' then Finite (3 / 2)
      else if s = ''3.00'' then Finite 3
      else if s = ''Infinity'' then Infinity
      else NaN)"

text \<open>A geology group whose only row has no top depth and the base depth \<open>Infinity\<close>.\<close>

definition infiniteDepthDocument :: "string list" where
  \<open>infiniteDepthDocument =
     [''"GROUP","GEOL"'', ''"HEADING","LOCA_ID","GEOL_TOP","GEOL_BASE"'',
      ''"DATA","BH1","","Infinity"'']\<close>

text \<open>
  A transmission group whose second data row has an empty format version, and a group
  whose data rows are separated by an empty line.
\<close>

definition transmissionDocument :: "string list" where
  \<open>transmissionDocument =
     [''"GROUP","TRAN"'', ''"HEADING","TRAN_ISNO","TRAN_AGS"'',
      ''"DATA","1","4.1"'', ''"DATA","2",""'']\<close>

definition gappedDocument :: "string list" where
  \<open>gappedDocument =
     [''"GROUP","SAMP"'', ''"HEADING","LOCA_ID","SAMP_TOP"'',
      ''"DATA","BH1","1.00"'', '''', ''"DATA","BH1","2.00"'', ''"DATA","BH1","3.00"'']\<close>

text \<open>A group with the single data row of the edit example.\<close>

definition editDocument :: "string list" where
  \<open>editDocument =
     [''"GROUP","GEOL"'', ''"HEADING","LOCA_ID","GEOL_TOP"'', ''"DATA","BH1","2.50"'']\<close>

text \<open>
  The same group with its data row eleven lines below the declaration, after nine empty
  lines.
\<close>

definition farDocument :: "string list" where
  \<open>farDocument =
     [''"GROUP","GEOL"'', ''"HEADING","LOCA_ID","GEOL_TOP"'',
      '''', '''', '''', '''', '''', '''', '''', '''', '''',
      ''"DATA","BH1","2.50"'']\<close>

text \<open>The name, the start line and the rows of a group.\<close>

definition rowsOf :: "ParsedGroup \<Rightarrow> string \<times> nat \<times> string list list" where
  "rowsOf g = (name g, gline g, data g)"

section \<open>Column at a position counts the commas outside quotes\<close>

lemma outsideQuotes_Suc:
  "i < length line \<Longrightarrow>
   outsideQuotes line (Suc i) = (if line ! i = quote then \<not> outsideQuotes line i else outsideQuotes line i)"
  by (simp add: outsideQuotes_def take_Suc_conv_app_nth)

lemma columnLoop_count:
  "inQuotes = (\<not> outsideQuotes line i) \<Longrightarrow>
   columnLoop line p i column inQuotes =
     column + length (filter (\<lambda>j. int j < p \<and> line ! j = comma \<and> outsideQuotes line j)
                        [i ..< length line])"
proof (induction line p i column inQuotes rule: columnLoop.induct)
  case (1 line p i column inQuotes)
  note unfold = columnLoop.simps [of line p i column inQuotes]
  let ?P = "\<lambda>j. int j < p \<and> line ! j = comma \<and> outsideQuotes line j"
  show ?case
  proof (cases "int i < p \<and> i < length line")
    case guard: True
    then have upt: "[i ..< length line] = i # [Suc i ..< length line]"
      by (simp add: upt_conv_Cons)
    have qc: "quote \<noteq> comma" by (simp add: quote_def comma_def)
    have il: "i < length line" using guard by simp
    have body: "columnLoop line p i column inQuotes =
        (if line ! i = quote then columnLoop line p (i + 1) column (\<not> inQuotes)
         else if line ! i = comma \<and> \<not> inQuotes
              then columnLoop line p (i + 1) (column + 1) inQuotes
              else columnLoop line p (i + 1) column inQuotes)"
      unfolding unfold by (rule if_P) (rule guard)
    show ?thesis
    proof (cases "line ! i = quote")
      case q: True
      have "columnLoop line p i column inQuotes = columnLoop line p (i + 1) column (\<not> inQuotes)"
        by (subst body) (simp add: q)
      also have "\<dots> = column + length (filter ?P [i + 1 ..< length line])"
        by (rule "1.IH"(1) [OF guard q]) (simp add: outsideQuotes_Suc il q "1.prems")
      also have "\<dots> = column + length (filter ?P [i ..< length line])"
        using q qc by (simp add: upt)
      finally show ?thesis .
    next
      case nq: False
      show ?thesis
      proof (cases "line ! i = comma \<and> \<not> inQuotes")
        case c: True
        have "columnLoop line p i column inQuotes = columnLoop line p (i + 1) (column + 1) inQuotes"
          by (subst body) (use nq c qc in auto)
        also have "\<dots> = column + 1 + length (filter ?P [i + 1 ..< length line])"
          by (rule "1.IH"(2) [OF guard nq c]) (simp add: outsideQuotes_Suc il nq "1.prems")
        also have "\<dots> = column + length (filter ?P [i ..< length line])"
          using c guard "1.prems" by (simp add: upt)
        finally show ?thesis .
      next
        case c: False
        have "columnLoop line p i column inQuotes = columnLoop line p (i + 1) column inQuotes"
          by (subst body) (use nq c qc in auto)
        also have "\<dots> = column + length (filter ?P [i + 1 ..< length line])"
          by (rule "1.IH"(3) [OF guard nq c]) (simp add: outsideQuotes_Suc il nq "1.prems")
        also have "\<dots> = column + length (filter ?P [i ..< length line])"
          using c "1.prems" by (auto simp: upt)
        finally show ?thesis .
      qed
    qed
  next
    case guard: False
    have "\<not> ?P j" if "j \<in> set [i ..< length line]" for j
      using that guard by auto
    then have "filter ?P [i ..< length line] = []"
      by (simp only: filter_empty_conv) blast
    moreover have "columnLoop line p i column inQuotes = column"
      unfolding unfold by (rule if_not_P) (rule guard)
    ultimately show ?thesis by simp
  qed
qed

text \<open>
  Claim C8. \<open>getColumnAtPosition\<close> returns, for every line and every offset, the number
  of commas strictly before the offset that have an even number of double quotes before
  them. On the line \<open>"DATA","A","B","C"\<close> the third quoted field occupies the
  characters 11 to 13 (its quotes included); at the offsets 11, 12, 13 and 14, from just
  before its opening quote to just after its closing quote, the column is 2.
\<close>

theorem column_at_position_counts_commas:
  \<open>getColumnAtPosition line charPosition = commasOutsideQuotesBefore line charPosition \<and>
   getColumnAtPosition ''"DATA","A","B","C"'' 11 = 2 \<and>
   getColumnAtPosition ''"DATA","A","B","C"'' 12 = 2 \<and>
   getColumnAtPosition ''"DATA","A","B","C"'' 13 = 2 \<and>
   getColumnAtPosition ''"DATA","A","B","C"'' 14 = 2\<close>
proof -
  have general: "getColumnAtPosition line charPosition = commasOutsideQuotesBefore line charPosition"
    unfolding getColumnAtPosition_def commasOutsideQuotesBefore_def
    by (subst columnLoop_count) (simp_all add: outsideQuotes_def)
  have c11: \<open>getColumnAtPosition ''"DATA","A","B","C"'' 11 = 2\<close> by code_simp
  have c12: \<open>getColumnAtPosition ''"DATA","A","B","C"'' 12 = 2\<close> by code_simp
  have c13: \<open>getColumnAtPosition ''"DATA","A","B","C"'' 13 = 2\<close> by code_simp
  have c14: \<open>getColumnAtPosition ''"DATA","A","B","C"'' 14 = 2\<close> by code_simp
  from general c11 c12 c13 c14 show ?thesis by blast
qed

section \<open>The span of a field whose quote is never closed\<close>

lemma quoteCount_dropWhile: "quoteCount (dropWhile (\<lambda>c. c \<noteq> quote) s) = quoteCount s"
  by (induction s) (auto simp: quoteCount_def)

lemma quoteCount_Nil: "quoteCount [] = 0"
  by (simp add: quoteCount_def)

lemma quoteCount_Cons: "quoteCount (c # s) = (if c = quote then Suc (quoteCount s) else quoteCount s)"
  by (simp add: quoteCount_def)

lemma dropWhile_quote_hd: "dropWhile (\<lambda>c. c \<noteq> quote) s = x # r \<Longrightarrow> x = quote"
  using hd_dropWhile [of "\<lambda>c. c \<noteq> quote" s] by auto

lemma extract_length: "length (extractQuotedFields s) = quoteCount s div 2"
proof (induction s rule: extractQuotedFields.induct)
  case (1 s)
  show ?case
  proof (cases "dropWhile (\<lambda>c. c \<noteq> quote) s")
    case Nil
    then have "quoteCount s = 0"
      using quoteCount_dropWhile [of s] by (simp add: quoteCount_def)
    then show ?thesis by (subst extractQuotedFields.simps) (simp add: Nil)
  next
    case (Cons x r)
    then have x: "x = quote" by (rule dropWhile_quote_hd)
    have qs: "quoteCount s = Suc (quoteCount r)"
      using quoteCount_dropWhile [of s] Cons x by (simp add: quoteCount_Cons)
    show ?thesis
    proof (cases "dropWhile (\<lambda>c. c \<noteq> quote) r")
      case Nil
      then have "quoteCount r = 0"
        using quoteCount_dropWhile [of r] by (simp add: quoteCount_def)
      then show ?thesis by (subst extractQuotedFields.simps) (simp add: Nil Cons qs)
    next
      case c2: (Cons y r')
      then have y: "y = quote" by (rule dropWhile_quote_hd)
      have qr: "quoteCount r = Suc (quoteCount r')"
        using quoteCount_dropWhile [of r] c2 y by (simp add: quoteCount_Cons)
      have "length (extractQuotedFields s) = Suc (length (extractQuotedFields r'))"
        by (subst extractQuotedFields.simps) (simp add: Cons c2)
      then show ?thesis using "1.IH" [OF Cons c2] qs qr by simp
    qed
  qed
qed

lemma closingQuote_eq:
  "closingQuote line j = (if j \<le> length line then j + length (takeWhile (\<lambda>c. c \<noteq> quote) (drop j line)) else j)"
proof (induction line j rule: closingQuote.induct)
  case (1 line i)
  show ?case
  proof (cases "i < length line \<and> line ! i \<noteq> quote")
    case True
    then have d: "drop i line = line ! i # drop (Suc i) line"
      by (simp add: Cons_nth_drop_Suc)
    have "closingQuote line i = closingQuote line (i + 1)"
      by (subst closingQuote.simps) (use True in simp)
    then show ?thesis using "1.IH" [OF True] True d by simp
  next
    case False
    have "closingQuote line i = i"
      by (subst closingQuote.simps) (use False in auto)
    moreover have "i < length line \<Longrightarrow> takeWhile (\<lambda>c. c \<noteq> quote) (drop i line) = []"
      using False by (simp add: Cons_nth_drop_Suc [symmetric])
    ultimately show ?thesis by (cases "i < length line") auto
  qed
qed

lemma quoteCount_drop_Suc:
  "i < length line \<Longrightarrow>
   quoteCount (drop i line) = (if line ! i = quote then Suc (quoteCount (drop (Suc i) line)) else quoteCount (drop (Suc i) line))"
  by (simp add: Cons_nth_drop_Suc [symmetric] quoteCount_Cons)

lemma quoteCount_zero: "quoteCount s = 0 \<longleftrightarrow> quote \<notin> set s"
  by (auto simp: quoteCount_def filter_empty_conv)

lemma closingQuote_none:
  "j \<le> length line \<Longrightarrow> quoteCount (drop j line) = 0 \<Longrightarrow> closingQuote line j = length line"
proof -
  assume j: "j \<le> length line" and z: "quoteCount (drop j line) = 0"
  have "\<forall>c \<in> set (drop j line). c \<noteq> quote" using z by (auto simp: quoteCount_zero)
  then have tw: "takeWhile (\<lambda>c. c \<noteq> quote) (drop j line) = drop j line"
    by (simp add: takeWhile_eq_all_conv)
  show ?thesis using j by (simp add: closingQuote_eq tw)
qed

lemma closingQuote_some:
  assumes "j \<le> length line" "quoteCount (drop j line) > 0"
  shows "closingQuote line j < length line \<and>
         Suc (quoteCount (drop (Suc (closingQuote line j)) line)) = quoteCount (drop j line)"
proof -
  let ?d = "drop j line"
  let ?k = "length (takeWhile (\<lambda>c. c \<noteq> quote) ?d)"
  have cq: "closingQuote line j = j + ?k" using assms by (simp add: closingQuote_eq)
  have "quoteCount (dropWhile (\<lambda>c. c \<noteq> quote) ?d) > 0"
    using assms(2) by (simp add: quoteCount_dropWhile)
  then have "dropWhile (\<lambda>c. c \<noteq> quote) ?d \<noteq> []"
    by (metis quoteCount_Nil less_irrefl)
  then obtain x r where xr: "dropWhile (\<lambda>c. c \<noteq> quote) ?d = x # r"
    by (cases "dropWhile (\<lambda>c. c \<noteq> quote) ?d") auto
  then have x: "x = quote" by (rule dropWhile_quote_hd)
  have "drop ?k ?d = x # r" using xr by (simp add: dropWhile_eq_drop)
  then have dk: "drop (j + ?k) line = quote # r" using x by (simp add: add.commute)
  then have lt: "j + ?k < length line"
    by (metis drop_all list.distinct(1) not_le)
  have "drop (Suc (j + ?k)) line = r"
    using dk by (metis drop_Suc tl_drop list.sel(3))
  moreover have "quoteCount ?d = Suc (quoteCount r)"
    using quoteCount_dropWhile [of ?d] xr x by (simp add: quoteCount_Cons)
  ultimately show ?thesis using cq lt by simp
qed

lemma cellRangeLoop_unterminated:
  "i \<le> length line \<Longrightarrow> int f \<le> t \<Longrightarrow> int (quoteCount (drop i line)) = 2 * (t - int f) + 1 \<Longrightarrow>
   \<exists>s. cellRangeLoop line n t i f = Some (n, s, length line) \<and> 0 < s \<and> s \<le> length line \<and>
       line ! (s - 1) = quote \<and> quote \<notin> set (drop s line)"
proof (induction line n t i f rule: cellRangeLoop.induct)
  case (1 line n t i f)
  have pos: "quoteCount (drop i line) > 0" using "1.prems"(2,3) by presburger
  then have il: "i < length line" by (cases "i < length line") (auto simp: quoteCount_def)
  then have guard: "i < length line \<and> int f \<le> t" using "1.prems" by simp
  show ?case
  proof (cases "line ! i = quote")
    case q: True
    have qs: "quoteCount (drop i line) = Suc (quoteCount (drop (Suc i) line))"
      using il q by (simp add: quoteCount_drop_Suc)
    show ?thesis
    proof (cases "int f = t")
      case True
      then have z: "quoteCount (drop (Suc i) line) = 0" using "1.prems" qs by simp
      then have "closingQuote line (i + 1) = length line"
        using il by (simp add: closingQuote_none)
      then have "cellRangeLoop line n t i f = Some (n, i + 1, length line)"
        using guard q True by (subst cellRangeLoop.simps) simp
      then show ?thesis using il q z by (auto simp: quoteCount_zero)
    next
      case False
      then have "quoteCount (drop (Suc i) line) > 0" using "1.prems"(2,3) qs by presburger
      from closingQuote_some [OF _ this] il
      have e: "closingQuote line (Suc i) < length line"
        and qe: "Suc (quoteCount (drop (Suc (closingQuote line (Suc i))) line)) = quoteCount (drop (Suc i) line)"
        by simp_all
      have step: "cellRangeLoop line n t i f = cellRangeLoop line n t (closingQuote line (i + 1) + 1) (f + 1)"
        using guard q False by (subst cellRangeLoop.simps) (simp add: Let_def)
      have "\<exists>s. cellRangeLoop line n t (closingQuote line (i + 1) + 1) (f + 1) = Some (n, s, length line) \<and> 0 < s \<and> s \<le> length line \<and>
       line ! (s - 1) = quote \<and> quote \<notin> set (drop s line)"
      proof (rule "1.IH"(1) [OF guard q refl refl False])
        show "closingQuote line (i + 1) + 1 \<le> length line" using e by simp
        show "int (f + 1) \<le> t" using False "1.prems" by simp
        show "int (quoteCount (drop (closingQuote line (i + 1) + 1) line)) = 2 * (t - int (f + 1)) + 1"
          using qe qs "1.prems" by simp
      qed
      then show ?thesis using step by simp
    qed
  next
    case nq: False
    have step: "cellRangeLoop line n t i f = cellRangeLoop line n t (i + 1) f"
      using guard nq by (subst cellRangeLoop.simps) simp
    have "\<exists>s. cellRangeLoop line n t (i + 1) f = Some (n, s, length line) \<and> 0 < s \<and> s \<le> length line \<and>
       line ! (s - 1) = quote \<and> quote \<notin> set (drop s line)"
    proof (rule "1.IH"(2) [OF guard nq])
      show "i + 1 \<le> length line" using il by simp
      show "int f \<le> t" using "1.prems" by simp
      show "int (quoteCount (drop (i + 1) line)) = 2 * (t - int f) + 1"
        using "1.prems" il nq by (simp add: quoteCount_drop_Suc)
    qed
    then show ?thesis using step by simp
  qed
qed

lemma last_quote_start:
  assumes "0 < s" "s \<le> length line" "line ! (s - 1) = quote" "quote \<notin> set (drop s line)"
  shows "s = length line - length (takeWhile (\<lambda>c. c \<noteq> quote) (rev line))"
proof -
  have "line = take (s - 1) line @ quote # drop s line"
    using assms by (metis Suc_pred' id_take_nth_drop less_eq_Suc_le)
  then have "rev line = rev (drop s line) @ quote # rev (take (s - 1) line)"
    by (metis rev.simps(2) rev_append append.assoc append_Cons append_Nil)
  moreover have "takeWhile (\<lambda>c. c \<noteq> quote) (rev (drop s line) @ quote # rev (take (s - 1) line))
      = rev (drop s line)"
    using assms(4) by (subst takeWhile_tail) (auto simp: takeWhile_eq_all_conv)
  ultimately have "takeWhile (\<lambda>c. c \<noteq> quote) (rev line) = rev (drop s line)"
    by simp
  then show ?thesis using assms by simp
qed

text \<open>
  Claim C10. Take a line and a column index \<open>ci \<ge> 0\<close> such that the fields 0 to \<open>ci\<close>
  are complete and one more double quote follows that is never closed: the line has
  \<open>2 * (ci + 1) + 1\<close> double quotes. Then \<open>getCellRange\<close> succeeds, with the span from
  just after that last quote to the end of the line, while \<open>extractQuotedFields\<close> yields
  exactly \<open>ci + 1\<close> fields, so none with index \<open>ci + 1\<close>: the edit would overwrite text
  that the parser does not read as a field.
\<close>

theorem unterminated_quote_span:
  assumes "0 \<le> ci" and "int (quoteCount line) = 2 * (ci + 1) + 1"
  shows "getCellRange line lineNumber ci = Some (lineNumber, afterLastQuote line, length line) \<and>
         0 < afterLastQuote line \<and> line ! (afterLastQuote line - 1) = quote \<and>
         quote \<notin> set (drop (afterLastQuote line) line) \<and>
         length (extractQuotedFields line) = nat (ci + 1) \<and>
         elemAt (extractQuotedFields line) (nat (ci + 1)) = None"
proof -
  have "int (quoteCount (drop 0 line)) = 2 * ((ci + 1) - int 0) + 1"
    using assms(2) by simp
  from cellRangeLoop_unterminated [OF _ _ this, of lineNumber] assms(1)
  obtain s where s: "cellRangeLoop line lineNumber (ci + 1) 0 0 = Some (lineNumber, s, length line)"
    "0 < s" "s \<le> length line" "line ! (s - 1) = quote" "quote \<notin> set (drop s line)"
    by auto
  have "s = afterLastQuote line"
    unfolding afterLastQuote_def using s(2-5) by (rule last_quote_start)
  moreover have "quoteCount line div 2 = nat (ci + 1)"
  proof -
    have "int (quoteCount line) div 2 = ci + 1" using assms(2) by presburger
    then have "int (quoteCount line div 2) = ci + 1" by (simp add: zdiv_int)
    then show ?thesis by (metis nat_int)
  qed
  ultimately show ?thesis
    using s by (simp add: getCellRange_def extract_length elemAt_def)
qed

theorem unterminated_quote_span_witness:
  \<open>(0::int) \<le> 1 \<and> int (quoteCount ''"DATA","BH1","2.5'') = 2 * (1 + 1) + 1 \<and>
   getCellRange ''"DATA","BH1","2.5'' 7 1 = Some (7, 14, 17) \<and>
   extractQuotedFields ''"DATA","BH1","2.5'' = [''DATA'', ''BH1''] \<and>
   elemAt (extractQuotedFields ''"DATA","BH1","2.5'') 2 = None\<close>
proof -
  have h1: "(0::int) \<le> 1" by simp
  have h2: \<open>int (quoteCount ''"DATA","BH1","2.5'') = 2 * (1 + 1) + 1\<close>
    by (simp add: quoteCount_def quote_def)
  have a: \<open>afterLastQuote ''"DATA","BH1","2.5'' = 14\<close>
    by (simp add: afterLastQuote_def quote_def)
  have e: \<open>extractQuotedFields ''"DATA","BH1","2.5'' = [''DATA'', ''BH1'']\<close>
    by code_simp
  have \<open>getCellRange ''"DATA","BH1","2.5'' 7 1 =
          Some (7, afterLastQuote ''"DATA","BH1","2.5'', length ''"DATA","BH1","2.5'')\<close>
    using unterminated_quote_span [OF h1 h2, of 7] by blast
  then have r: \<open>getCellRange ''"DATA","BH1","2.5'' 7 1 = Some (7, 14, 17)\<close>
    by (simp add: a)
  have n: \<open>elemAt (extractQuotedFields ''"DATA","BH1","2.5'') 2 = None\<close>
    by (simp add: e elemAt_def)
  from h1 h2 r e n show ?thesis by blast
qed

section \<open>Counting the records\<close>

lemma countGroups_eq:
  "countGroups dict gs acc =
     (fst acc @ map (entryOf dict) gs, snd acc + sum_list (map (\<lambda>kv. dataCount (snd kv)) gs))"
proof (induction gs arbitrary: acc)
  case Nil
  show ?case by simp
next
  case (Cons kv gs)
  obtain k g where kv: "kv = (k, g)" by (cases kv)
  obtain cs n where acc: "acc = (cs, n)" by (cases acc)
  show ?case unfolding kv acc by (simp add: Cons.IH entryOf_def)
qed

lemma list_all_update:
  "list_all P xs \<Longrightarrow> P (k, v) \<Longrightarrow> list_all P (AList.update k v xs)"
  by (induction xs) auto

lemma countsAgree_store:
  "countsAgree st \<Longrightarrow> dataCount g = length (data g) \<Longrightarrow> countsAgree (store g st)"
  by (simp add: countsAgree_def store_def list_all_update)

lemma countsAgree_captureVersion:
  "countsAgree st \<Longrightarrow> countsAgree (captureVersion g flds st)"
  by (simp add: countsAgree_def captureVersion_def split: option.splits)

lemma countsAgree_parseLine:
  assumes "countsAgree st"
  shows "countsAgree (parseLine i l st)"
proof -
  have cur: "dataCount g = length (data g)" if "pCurrentGroup st = Some g" for g
    using assms that by (simp add: countsAgree_def)
  show ?thesis
    unfolding parseLine_def Let_def
    by (auto simp: assms cur countsAgree_store countsAgree_captureVersion split: option.splits)
qed

lemma countsAgree_parseLines:
  "countsAgree st \<Longrightarrow> countsAgree (parseLines i ls st)"
  by (induction ls arbitrary: i st) (simp_all add: countsAgree_parseLine)

lemma groups_parseDocument: "groups (parseDocument document) = groups (parseLines 0 document initialState)"
  by (simp add: parseDocument_def Let_def)

text \<open>
  Claim C5. For every parsed document the summary's \<open>totalRecords\<close> is the sum of
  \<open>dataCount\<close> over the groups of the document, and in every document that the
  parser produces each group's \<open>dataCount\<close> is the number of its data rows.
\<close>

theorem total_record_count:
  "totalRecords (generateSummary dict pf parsed) = sum_list (map (\<lambda>kv. dataCount (snd kv)) (groups parsed)) \<and>
   (\<forall>kv \<in> set (groups (parseDocument document)). dataCount (snd kv) = length (data (snd kv)))"
proof -
  have "countsAgree (parseLines 0 document initialState)"
    by (rule countsAgree_parseLines) (simp add: countsAgree_def initialState_def)
  then have "\<forall>kv \<in> set (groups (parseDocument document)). dataCount (snd kv) = length (data (snd kv))"
    by (simp add: countsAgree_def groups_parseDocument list_all_iff)
  moreover have "totalRecords (generateSummary dict pf parsed) = sum_list (map (\<lambda>kv. dataCount (snd kv)) (groups parsed))"
    by (simp add: generateSummary_def countGroups_eq)
  ultimately show ?thesis by simp
qed

lemma parse_geologyDocument:
  "groups (parseDocument geologyDocument) =
   [(''LOCA'', \<lparr>name = ''LOCA'', gline = 0, headings = [''LOCA_ID'', ''LOCA_TYPE''], headingLine = 1,
       dataCount = 1, units = [], types = [], data = [[''BH1'', ''BH'']]\<rparr>),
    (''GEOL'', \<lparr>name = ''GEOL'', gline = 4, headings = [''LOCA_ID'', ''GEOL_TOP'', ''GEOL_BASE''],
       headingLine = 5, dataCount = 2, units = [], types = [],
       data = [[''BH1'', ''0.00'', ''1.50''], [''BH1'', ''1.50'', ''3.00'']]\<rparr>)]"
  by code_simp

theorem total_record_count_witness:
  "totalRecords (generateSummary (\<lambda>k. None) parseDepth (parseDocument geologyDocument)) = 3 \<and>
   map (\<lambda>kv. (fst kv, dataCount (snd kv), length (data (snd kv)))) (groups (parseDocument geologyDocument)) =
     [(''LOCA'', 1, 1), (''GEOL'', 2, 2)]"
  using total_record_count [of "\<lambda>k. None" parseDepth "parseDocument geologyDocument" geologyDocument]
  by (simp add: parse_geologyDocument)

section \<open>The order of the group counts\<close>

lemma set_insertCmp: "set (insertCmp cmp x ys) = insert x (set ys)"
  by (induction ys) auto

lemma sorted_insertCmp:
  "sorted_wrt (\<lambda>a b. gcCount b \<le> gcCount a) ys \<Longrightarrow>
   sorted_wrt (\<lambda>a b. gcCount b \<le> gcCount a) (insertCmp byCountDesc x ys)"
  by (induction ys) (auto simp: set_insertCmp byCountDesc_def)

lemma sorted_sortCmp: "sorted_wrt (\<lambda>a b. gcCount b \<le> gcCount a) (sortCmp byCountDesc xs)"
  unfolding sortCmp_def by (induction xs) (simp_all add: sorted_insertCmp)

lemma filter_insertCmp:
  "filter (\<lambda>e. gcCount e = c) (insertCmp byCountDesc x ys) =
     (if gcCount x = c then x # filter (\<lambda>e. gcCount e = c) ys else filter (\<lambda>e. gcCount e = c) ys)"
  by (induction ys) (auto simp: byCountDesc_def)

lemma filter_sortCmp:
  "filter (\<lambda>e. gcCount e = c) (sortCmp byCountDesc xs) = filter (\<lambda>e. gcCount e = c) xs"
  unfolding sortCmp_def by (induction xs) (simp_all add: filter_insertCmp)

lemma keys_store:
  "map fst (groups (store g st)) =
     (if name g \<in> set (map fst (groups st)) then map fst (groups st) else map fst (groups st) @ [name g])"
  by (simp add: store_def update_keys)


lemma currentStored_store: "currentStored (store g st)"
  by (simp add: currentStored_def store_def dom_update)

lemma keys_captureVersion: "groups (captureVersion g flds st) = groups st"
  by (simp add: captureVersion_def split: option.splits)

lemma current_captureVersion: "pCurrentGroup (captureVersion g flds st) = pCurrentGroup st"
  by (simp add: captureVersion_def split: option.splits)

lemma currentStored_captureVersion: "currentStored st \<Longrightarrow> currentStored (captureVersion g flds st)"
  by (simp add: currentStored_def keys_captureVersion current_captureVersion split: option.splits)

lemma currentStored_parseLine: "currentStored st \<Longrightarrow> currentStored (parseLine i l st)"
  unfolding parseLine_def Let_def
  by (auto simp: currentStored_store currentStored_captureVersion split: option.splits)

lemma keys_parseLine:
  assumes "currentStored st"
  shows "map fst (groups (parseLine i l st)) =
         foldl (\<lambda>seen x. if x \<in> set seen then seen else seen @ [x]) (map fst (groups st)) (groupNames [l])"
proof -
  have cur: "name g \<in> set (map fst (groups st))" if "pCurrentGroup st = Some g" for g
    using assms that by (simp add: currentStored_def)
  show ?thesis
    unfolding parseLine_def Let_def groupNames_def
    by (auto simp: keys_store keys_captureVersion dest: cur split: option.splits)
qed

lemma groupNames_Cons: "groupNames (l # ls) = groupNames [l] @ groupNames ls"
  by (simp add: groupNames_def)

lemma keys_parseLines:
  "currentStored st \<Longrightarrow>
   map fst (groups (parseLines i ls st)) =
     foldl (\<lambda>seen x. if x \<in> set seen then seen else seen @ [x]) (map fst (groups st)) (groupNames ls)"
proof (induction ls arbitrary: i st)
  case Nil
  show ?case by (simp add: groupNames_def)
next
  case (Cons l ls)
  have "map fst (groups (parseLines i (l # ls) st)) =
        foldl (\<lambda>seen x. if x \<in> set seen then seen else seen @ [x])
          (map fst (groups (parseLine i l st))) (groupNames ls)"
    using Cons.IH [OF currentStored_parseLine [OF Cons.prems]] by simp
  also have "\<dots> = foldl (\<lambda>seen x. if x \<in> set seen then seen else seen @ [x])
          (map fst (groups st)) (groupNames [l] @ groupNames ls)"
    by (simp only: keys_parseLine [OF Cons.prems] foldl_append)
  finally show ?case by (simp only: groupNames_Cons [of l ls])
qed

text \<open>
  Claim C6. The summary's \<open>groupCounts\<close> is in descending order of count; for every
  count \<open>c\<close> the entries with that count stand in the order of the document's group
  map; and the group map of a parsed document lists the group names in the order of
  their first occurrence in the file.
\<close>

theorem group_counts_sorted_stable:
  "sorted_wrt (\<lambda>a b. gcCount b \<le> gcCount a) (groupCounts (generateSummary dict pf parsed)) \<and>
   filter (\<lambda>e. gcCount e = c) (groupCounts (generateSummary dict pf parsed)) =
     filter (\<lambda>e. gcCount e = c) (map (entryOf dict) (groups parsed)) \<and>
   map fst (groups (parseDocument document)) = firstOccurrences (groupNames document)"
proof -
  have gc: "groupCounts (generateSummary dict pf parsed) = sortCmp byCountDesc (map (entryOf dict) (groups parsed))"
    by (simp add: generateSummary_def countGroups_eq)
  have "currentStored initialState" by (simp add: currentStored_def initialState_def)
  from keys_parseLines [OF this, of 0 document]
  have "map fst (groups (parseDocument document)) = firstOccurrences (groupNames document)"
    by (simp add: groups_parseDocument firstOccurrences_def initialState_def)
  then show ?thesis by (simp add: gc sorted_sortCmp filter_sortCmp)
qed

section \<open>Depth ranges\<close>

lemma mathMin_not_Infinity: "mathMin a (Finite v) \<noteq> Infinity"
  by (cases a) (simp_all add: mathMin_def)

lemma mathMax_not_NegInfinity: "mathMax a (Finite v) \<noteq> NegInfinity"
  by (cases a) (simp_all add: mathMax_def)

lemma mathMin_Infinity: "mathMin Infinity (Finite v) = Finite v"
  by (simp add: mathMin_def)

lemma mathMax_NegInfinity: "mathMax NegInfinity (Finite v) = Finite v"
  by (simp add: mathMax_def)

lemma geolRow_step:
  assumes "elemAt row li = Some L" "L \<noteq> []"
  shows "geolRow pf li ti bi ranges row =
     (let min0 = (case map_of ranges L of Some r \<Rightarrow> fst r | None \<Rightarrow> Infinity);
          max0 = (case map_of ranges L of Some r \<Rightarrow> snd r | None \<Rightarrow> NegInfinity);
          min1 = (if depthAt pf row ti \<noteq> NaN then mathMin min0 (depthAt pf row ti) else min0);
          max1 = (if depthAt pf row ti \<noteq> NaN then mathMax max0 (depthAt pf row ti) else max0);
          min2 = (if depthAt pf row bi \<noteq> NaN then mathMin min1 (depthAt pf row bi) else min1);
          max2 = (if depthAt pf row bi \<noteq> NaN then mathMax max1 (depthAt pf row bi) else max1)
      in if min2 \<noteq> Infinity \<or> max2 \<noteq> NegInfinity then
           AList.update L (if min2 = Infinity then Finite 0 else min2,
                           if max2 = NegInfinity then Finite 0 else max2) ranges
         else ranges)"
  using assms by (simp add: geolRow_def depthAt_def Let_def)

lemma geolRow_both_missing:
  assumes "elemAt row li = Some L" "L \<noteq> []" "storedRanges ranges"
    and "depthAt pf row ti = NaN" "depthAt pf row bi = NaN"
  shows "geolRow pf li ti bi ranges row = ranges"
proof (cases "map_of ranges L")
  case None
  then show ?thesis using assms by (simp add: geolRow_step)
next
  case (Some r)
  then have "(L, r) \<in> set ranges" by (rule map_of_SomeD)
  then have "fst r \<noteq> Infinity \<and> snd r \<noteq> NegInfinity"
    using assms(3) by (auto simp: storedRanges_def list_all_iff)
  then show ?thesis using assms Some by (simp add: geolRow_step update_triv)
qed

lemma geolRow_base_only:
  assumes "elemAt row li = Some L" "L \<noteq> []"
    and "depthAt pf row ti = NaN" "depthAt pf row bi = Finite v"
  shows "map_of (geolRow pf li ti bi ranges row) L = Some (widenBy (map_of ranges L) v)"
  using assms
  by (simp add: geolRow_step Let_def widenBy_def mathMin_not_Infinity mathMax_not_NegInfinity
      mathMin_Infinity mathMax_NegInfinity update_conv split: option.splits)

lemma geolRow_top_only:
  assumes "elemAt row li = Some L" "L \<noteq> []"
    and "depthAt pf row ti = Finite v" "depthAt pf row bi = NaN"
  shows "map_of (geolRow pf li ti bi ranges row) L = Some (widenBy (map_of ranges L) v)"
  using assms
  by (simp add: geolRow_step Let_def widenBy_def mathMin_not_Infinity mathMax_not_NegInfinity
      mathMin_Infinity mathMax_NegInfinity update_conv split: option.splits)

lemma storedRanges_geolRow: "storedRanges ranges \<Longrightarrow> storedRanges (geolRow pf li ti bi ranges row)"
  by (auto simp: geolRow_def Let_def storedRanges_def list_all_update split: option.splits)

lemma storedRanges_foldl:
  "storedRanges ranges \<Longrightarrow> storedRanges (foldl (geolRow pf li ti bi) ranges rows)"
  by (induction rows arbitrary: ranges) (simp_all add: storedRanges_geolRow)

lemma depthRanges_example:
  assumes "map_of (groups parsed) ''GEOL'' = Some g"
    and "indexOf (headings g) ''LOCA_ID'' = Some ki"
    and "indexOf (headings g) ''GEOL_TOP'' = Some kt"
    and "indexOf (headings g) ''GEOL_BASE'' = Some kb"
    and "data g = [r1, r2]"
    and "elemAt r1 ki = Some ''BH1''" and "elemAt r2 ki = Some ''BH1''"
    and "parseFloatAt pf r1 kt = Finite 0" and "parseFloatAt pf r1 kb = Finite (3 / 2)"
    and "parseFloatAt pf r2 kt = Finite (3 / 2)" and "parseFloatAt pf r2 kb = Finite 3"
  shows "depthRangesByLocation pf parsed = [(''BH1'', Finite 0, Finite 3)]"
proof -
  have first: "geolRow pf ki (Some kt) (Some kb) [] r1 = [(''BH1'', Finite 0, Finite (3 / 2))]"
    using assms(6,8,9) by (simp add: geolRow_def Let_def mathMin_def mathMax_def)
  have second: "geolRow pf ki (Some kt) (Some kb) [(''BH1'', Finite 0, Finite (3 / 2))] r2 =
      [(''BH1'', Finite 0, Finite 3)]"
    using assms(7,10,11) by (simp add: geolRow_def Let_def mathMin_def mathMax_def)
  show ?thesis
    using assms(1-5) by (simp add: depthRangesByLocation_def Let_def first second)
qed

lemma geolRow_infinite:
  assumes "elemAt row li = Some L" "L \<noteq> []" "map_of ranges L = None"
    and "depthAt pf row ti = NaN \<and> depthAt pf row bi = w \<or>
         depthAt pf row ti = w \<and> depthAt pf row bi = NaN"
  shows "w = Infinity \<Longrightarrow> map_of (geolRow pf li ti bi ranges row) L = Some (Finite 0, Infinity)"
    and "w = NegInfinity \<Longrightarrow> map_of (geolRow pf li ti bi ranges row) L = Some (NegInfinity, Finite 0)"
  using assms(3,4)
  by (auto simp: geolRow_step [OF assms(1,2)] Let_def mathMin_def mathMax_def update_conv)

lemma update_or_same:
  "(if C then AList.update L X r else r) = r \<or>
   (\<exists>x. (if C then AList.update L X r else r) = AList.update L x r)"
  by auto

lemma geolRow_shape:
  assumes "elemAt row li = Some L"
  shows "geolRow pf li ti bi ranges row = ranges \<or>
         (\<exists>x. geolRow pf li ti bi ranges row = AList.update L x ranges)"
proof (cases "L = []")
  case True
  then show ?thesis using assms by (simp add: geolRow_def Let_def)
next
  case False
  show ?thesis unfolding geolRow_step [OF assms False] Let_def by (rule update_or_same)
qed

lemma geolRow_other:
  assumes "L' \<noteq> L" "elemAt row li = Some L"
  shows "map_of (geolRow pf li ti bi ranges row) L' = map_of ranges L'"
  using geolRow_shape [OF assms(2), of pf ti bi ranges] assms(1)
  by (auto simp: update_conv')

lemma locaRow_depths:
  "loc \<in> set (locaRow ranges lg row) \<Longrightarrow>
   depthMin loc = map_option fst (map_of ranges (locId loc)) \<and>
   depthMax loc = map_option snd (map_of ranges (locId loc))"
  by (auto simp: locaRow_def Let_def split: option.splits if_splits)

lemma locations_generateSummary:
  "locations (generateSummary dict pf parsed) =
     (case map_of (groups parsed) ''LOCA'' of
        None \<Rightarrow> []
      | Some lg \<Rightarrow> concat (map (locaRow (depthRangesByLocation pf parsed) lg) (data lg)))"
  by (simp add: generateSummary_def Let_def)

lemma locations_depths:
  assumes "loc \<in> set (locations (generateSummary dict pf parsed))"
  shows "depthMin loc = map_option fst (map_of (depthRangesByLocation pf parsed) (locId loc)) \<and>
         depthMax loc = map_option snd (map_of (depthRangesByLocation pf parsed) (locId loc))"
proof (cases "map_of (groups parsed) ''LOCA''")
  case None
  then show ?thesis using assms by (simp add: locations_generateSummary)
next
  case (Some lg)
  then obtain row where "loc \<in> set (locaRow (depthRangesByLocation pf parsed) lg row)"
    using assms by (auto simp: locations_generateSummary)
  then show ?thesis by (rule locaRow_depths)
qed

lemma parse_infiniteDepthDocument:
  "groups (parseDocument infiniteDepthDocument) =
     [(''GEOL'', \<lparr>name = ''GEOL'', gline = 0, headings = [''LOCA_ID'', ''GEOL_TOP'', ''GEOL_BASE''],
         headingLine = 1, dataCount = 1, units = [], types = [],
         data = [[''BH1'', '''', ''Infinity'']]\<rparr>)]"
  by code_simp

text \<open>
  Claim C7, as stated, fails in its general part: the only geology row of a location has
  no top depth and a base depth that \<open>parseFloat\<close> reads as \<open>Infinity\<close>. The row can
  supply \<open>Infinity\<close> and nothing else, and the stored range has the minimum 0, which
  no row supplied.
\<close>

theorem depth_range_infinite_counterexample:
  "map_of (groups (parseDocument infiniteDepthDocument)) ''GEOL'' =
     Some \<lparr>name = ''GEOL'', gline = 0, headings = [''LOCA_ID'', ''GEOL_TOP'', ''GEOL_BASE''],
         headingLine = 1, dataCount = 1, units = [], types = [],
         data = [[''BH1'', '''', ''Infinity'']]\<rparr> \<and>
   parseDepth '''' = NaN \<and> parseDepth ''Infinity'' = Infinity \<and>
   map_of (depthRangesByLocation parseDepth (parseDocument infiniteDepthDocument)) ''BH1'' =
     Some (Finite 0, Infinity) \<and>
   Finite 0 \<noteq> Infinity"
  by (simp add: parse_infiniteDepthDocument parseDepth_def depthRangesByLocation_def geolRow_def
      parseFloatAt_def elemAt_def Let_def mathMin_def mathMax_def)

text \<open>
  Claim C7, amended. Let the group GEOL of a document have the columns LOCA_ID, GEOL_TOP
  and GEOL_BASE, at whatever positions, and exactly two rows, both for BH1, whose top
  and base depths \<open>parseFloat\<close> reads as 0 and 1.5, and as 1.5 and 3. Then the depth
  range computed for BH1 is (0, 3), and every location entry of the summary for BH1
  carries it. In general, for a row with a non-empty location identifier \<open>L\<close>: if
  neither depth is numeric, the ranges computed so far stay as they are; if only one
  depth is numeric and finite, with the value \<open>v\<close>, the range of \<open>L\<close> becomes its
  former range widened by \<open>v\<close> alone (or \<open>(v, v)\<close> if it had none), whichever of the
  two columns supplied \<open>v\<close>; the ranges of the other locations are not touched. If
  only one depth is numeric and it is \<open>Infinity\<close> or \<open>-Infinity\<close>, and \<open>L\<close> had no
  range, the bound that the row leaves at its initial value is stored as 0: the range
  becomes \<open>(0, Infinity)\<close> or \<open>(-Infinity, 0)\<close>.
\<close>

theorem depth_range_aggregation:
  assumes "elemAt row li = Some L" and "L \<noteq> []"
  shows "(map_of (groups parsed) ''GEOL'' = Some g \<and>
          indexOf (headings g) ''LOCA_ID'' = Some ki \<and>
          indexOf (headings g) ''GEOL_TOP'' = Some kt \<and>
          indexOf (headings g) ''GEOL_BASE'' = Some kb \<and>
          data g = [r1, r2] \<and>
          elemAt r1 ki = Some ''BH1'' \<and> elemAt r2 ki = Some ''BH1'' \<and>
          parseFloatAt pf r1 kt = Finite 0 \<and> parseFloatAt pf r1 kb = Finite (3 / 2) \<and>
          parseFloatAt pf r2 kt = Finite (3 / 2) \<and> parseFloatAt pf r2 kb = Finite 3 \<longrightarrow>
            map_of (depthRangesByLocation pf parsed) ''BH1'' = Some (Finite 0, Finite 3) \<and>
            (\<forall>loc \<in> set (locations (generateSummary dict pf parsed)).
               locId loc = ''BH1'' \<longrightarrow> depthMin loc = Some (Finite 0) \<and> depthMax loc = Some (Finite 3))) \<and>
         (depthAt pf row ti = NaN \<and> depthAt pf row bi = NaN \<longrightarrow>
            geolRow pf li ti bi (foldl (geolRow pf li ti bi) [] rows) row =
              foldl (geolRow pf li ti bi) [] rows) \<and>
         (depthAt pf row ti = NaN \<and> depthAt pf row bi = Finite v \<longrightarrow>
            map_of (geolRow pf li ti bi ranges row) L = Some (widenBy (map_of ranges L) v)) \<and>
         (depthAt pf row ti = Finite v \<and> depthAt pf row bi = NaN \<longrightarrow>
            map_of (geolRow pf li ti bi ranges row) L = Some (widenBy (map_of ranges L) v)) \<and>
         (L' \<noteq> L \<longrightarrow> map_of (geolRow pf li ti bi ranges row) L' = map_of ranges L') \<and>
         (map_of ranges L = None \<and>
          (depthAt pf row ti = NaN \<and> depthAt pf row bi = Infinity \<or>
           depthAt pf row ti = Infinity \<and> depthAt pf row bi = NaN) \<longrightarrow>
            map_of (geolRow pf li ti bi ranges row) L = Some (Finite 0, Infinity)) \<and>
         (map_of ranges L = None \<and>
          (depthAt pf row ti = NaN \<and> depthAt pf row bi = NegInfinity \<or>
           depthAt pf row ti = NegInfinity \<and> depthAt pf row bi = NaN) \<longrightarrow>
            map_of (geolRow pf li ti bi ranges row) L = Some (NegInfinity, Finite 0))"
proof -
  have c1: "map_of (groups parsed) ''GEOL'' = Some g \<and>
          indexOf (headings g) ''LOCA_ID'' = Some ki \<and>
          indexOf (headings g) ''GEOL_TOP'' = Some kt \<and>
          indexOf (headings g) ''GEOL_BASE'' = Some kb \<and>
          data g = [r1, r2] \<and>
          elemAt r1 ki = Some ''BH1'' \<and> elemAt r2 ki = Some ''BH1'' \<and>
          parseFloatAt pf r1 kt = Finite 0 \<and> parseFloatAt pf r1 kb = Finite (3 / 2) \<and>
          parseFloatAt pf r2 kt = Finite (3 / 2) \<and> parseFloatAt pf r2 kb = Finite 3 \<longrightarrow>
            map_of (depthRangesByLocation pf parsed) ''BH1'' = Some (Finite 0, Finite 3) \<and>
            (\<forall>loc \<in> set (locations (generateSummary dict pf parsed)).
               locId loc = ''BH1'' \<longrightarrow> depthMin loc = Some (Finite 0) \<and> depthMax loc = Some (Finite 3))"
  proof (rule impI, elim conjE, goal_cases)
    case 1
    have r: "depthRangesByLocation pf parsed = [(''BH1'', Finite 0, Finite 3)]"
      using 1 by (rule depthRanges_example)
    have "depthMin loc = Some (Finite 0) \<and> depthMax loc = Some (Finite 3)"
      if "loc \<in> set (locations (generateSummary dict pf parsed))" "locId loc = ''BH1''" for loc
      using locations_depths [OF that(1)] that(2) by (simp add: r)
    then show ?case by (simp add: r)
  qed
  have stored: "storedRanges (foldl (geolRow pf li ti bi) [] rows)"
    by (rule storedRanges_foldl) (simp add: storedRanges_def)
  have c2: "depthAt pf row ti = NaN \<and> depthAt pf row bi = NaN \<longrightarrow>
            geolRow pf li ti bi (foldl (geolRow pf li ti bi) [] rows) row =
              foldl (geolRow pf li ti bi) [] rows"
    by (rule impI, elim conjE, rule geolRow_both_missing [OF assms stored])
  have c3: "depthAt pf row ti = NaN \<and> depthAt pf row bi = Finite v \<longrightarrow>
            map_of (geolRow pf li ti bi ranges row) L = Some (widenBy (map_of ranges L) v)"
    by (rule impI, elim conjE, rule geolRow_base_only [OF assms])
  have c4: "depthAt pf row ti = Finite v \<and> depthAt pf row bi = NaN \<longrightarrow>
            map_of (geolRow pf li ti bi ranges row) L = Some (widenBy (map_of ranges L) v)"
    by (rule impI, elim conjE, rule geolRow_top_only [OF assms])
  have c5: "L' \<noteq> L \<longrightarrow> map_of (geolRow pf li ti bi ranges row) L' = map_of ranges L'"
    by (rule impI, rule geolRow_other [OF _ assms(1)])
  have c6: "map_of ranges L = None \<and>
          (depthAt pf row ti = NaN \<and> depthAt pf row bi = Infinity \<or>
           depthAt pf row ti = Infinity \<and> depthAt pf row bi = NaN) \<longrightarrow>
            map_of (geolRow pf li ti bi ranges row) L = Some (Finite 0, Infinity)"
    by (rule impI, elim conjE, rule geolRow_infinite(1) [OF assms _ _ refl])
  have c7: "map_of ranges L = None \<and>
          (depthAt pf row ti = NaN \<and> depthAt pf row bi = NegInfinity \<or>
           depthAt pf row ti = NegInfinity \<and> depthAt pf row bi = NaN) \<longrightarrow>
            map_of (geolRow pf li ti bi ranges row) L = Some (NegInfinity, Finite 0)"
    by (rule impI, elim conjE, rule geolRow_infinite(2) [OF assms _ _ refl])
  show ?thesis by (intro conjI c1 c2 c3 c4 c5 c6 c7)
qed

theorem depth_range_aggregation_witness:
  "elemAt [''BH1'', ''n/a'', ''3.00''] 0 = Some ''BH1'' \<and> ''BH1'' \<noteq> [] \<and>
   map_of (groups (parseDocument geologyDocument)) ''GEOL'' =
     Some \<lparr>name = ''GEOL'', gline = 4, headings = [''LOCA_ID'', ''GEOL_TOP'', ''GEOL_BASE''],
       headingLine = 5, dataCount = 2, units = [], types = [],
       data = [[''BH1'', ''0.00'', ''1.50''], [''BH1'', ''1.50'', ''3.00'']]\<rparr> \<and>
   map_of (depthRangesByLocation parseDepth (parseDocument geologyDocument)) ''BH1'' =
     Some (Finite 0, Finite 3) \<and>
   map (\<lambda>loc. (locId loc, depthMin loc, depthMax loc))
     (locations (generateSummary (\<lambda>k. None) parseDepth (parseDocument geologyDocument))) =
     [(''BH1'', Some (Finite 0), Some (Finite 3))] \<and>
   depthAt parseDepth [''BH1'', ''n/a'', ''3.00''] (Some 1) = NaN \<and>
   depthAt parseDepth [''BH1'', ''n/a'', ''3.00''] (Some 2) = Finite 3 \<and>
   map_of (geolRow parseDepth 0 (Some 1) (Some 2) [(''BH1'', Finite 0, Finite (3 / 2))]
             [''BH1'', ''n/a'', ''3.00'']) ''BH1'' = Some (Finite 0, Finite 3) \<and>
   depthAt parseDepth [''BH1'', ''n/a'', ''Infinity''] (Some 2) = Infinity \<and>
   map_of (geolRow parseDepth 0 (Some 1) (Some 2) [] [''BH1'', ''n/a'', ''Infinity'']) ''BH1'' =
     Some (Finite 0, Infinity)"
proof -
  let ?row = "[''BH1'', ''n/a'', ''3.00'']"
  let ?inf = "[''BH1'', ''n/a'', ''Infinity'']"
  let ?ranges = "[(''BH1'', Finite 0, Finite (3 / 2))]"
  let ?g = "\<lparr>name = ''GEOL'', gline = 4, headings = [''LOCA_ID'', ''GEOL_TOP'', ''GEOL_BASE''],
       headingLine = 5, dataCount = 2, units = [], types = [],
       data = [[''BH1'', ''0.00'', ''1.50''], [''BH1'', ''1.50'', ''3.00'']]\<rparr>"
  have h1: "elemAt ?row 0 = Some ''BH1''" by (simp add: elemAt_def)
  have h1': "elemAt ?inf 0 = Some ''BH1''" by (simp add: elemAt_def)
  have h2: "''BH1'' \<noteq> []" by simp
  have g: "map_of (groups (parseDocument geologyDocument)) ''GEOL'' = Some ?g"
    by (simp add: parse_geologyDocument)
  have t: "depthAt parseDepth ?row (Some 1) = NaN"
    by (simp add: depthAt_def parseFloatAt_def elemAt_def parseDepth_def)
  have b: "depthAt parseDepth ?row (Some 2) = Finite 3"
    by (simp add: depthAt_def parseFloatAt_def elemAt_def parseDepth_def)
  have t': "depthAt parseDepth ?inf (Some 1) = NaN"
    by (simp add: depthAt_def parseFloatAt_def elemAt_def parseDepth_def)
  have b': "depthAt parseDepth ?inf (Some 2) = Infinity"
    by (simp add: depthAt_def parseFloatAt_def elemAt_def parseDepth_def)
  note inst = depth_range_aggregation [OF h1 h2, where pf = parseDepth
      and parsed = "parseDocument geologyDocument" and g = ?g and ki = 0 and kt = 1 and kb = 2
      and ?r1.0 = "[''BH1'', ''0.00'', ''1.50'']" and ?r2.0 = "[''BH1'', ''1.50'', ''3.00'']"
      and dict = "\<lambda>k. None" and ti = "Some 1" and bi = "Some 2" and rows = "[]" and v = 3
      and ranges = ?ranges and L' = "''BH1''"]
  note inst' = depth_range_aggregation [OF h1' h2, where pf = parseDepth
      and ti = "Some 1" and bi = "Some 2" and ranges = "[]"]
  have hyp: "map_of (groups (parseDocument geologyDocument)) ''GEOL'' = Some ?g \<and>
      indexOf (headings ?g) ''LOCA_ID'' = Some 0 \<and>
      indexOf (headings ?g) ''GEOL_TOP'' = Some 1 \<and>
      indexOf (headings ?g) ''GEOL_BASE'' = Some 2 \<and>
      data ?g = [[''BH1'', ''0.00'', ''1.50''], [''BH1'', ''1.50'', ''3.00'']] \<and>
      elemAt [''BH1'', ''0.00'', ''1.50''] 0 = Some ''BH1'' \<and>
      elemAt [''BH1'', ''1.50'', ''3.00''] 0 = Some ''BH1'' \<and>
      parseFloatAt parseDepth [''BH1'', ''0.00'', ''1.50''] 1 = Finite 0 \<and>
      parseFloatAt parseDepth [''BH1'', ''0.00'', ''1.50''] 2 = Finite (3 / 2) \<and>
      parseFloatAt parseDepth [''BH1'', ''1.50'', ''3.00''] 1 = Finite (3 / 2) \<and>
      parseFloatAt parseDepth [''BH1'', ''1.50'', ''3.00''] 2 = Finite 3"
    using g by (simp add: parseFloatAt_def elemAt_def parseDepth_def)
  have r: "map_of (depthRangesByLocation parseDepth (parseDocument geologyDocument)) ''BH1'' =
     Some (Finite 0, Finite 3)"
    using inst [THEN conjunct1, THEN mp, OF hyp] by (rule conjunct1)
  have "map_of (geolRow parseDepth 0 (Some 1) (Some 2) ?ranges ?row) ''BH1''
      = Some (widenBy (map_of ?ranges ''BH1'') 3)"
    using inst [THEN conjunct2, THEN conjunct2, THEN conjunct1, THEN mp, OF conjI [OF t b]] .
  then have w: "map_of (geolRow parseDepth 0 (Some 1) (Some 2) ?ranges ?row) ''BH1''
      = Some (Finite 0, Finite 3)"
    by (simp add: widenBy_def mathMin_def mathMax_def)
  have e: "map_of ([] :: (string \<times> number \<times> number) list) ''BH1'' = None" by simp
  have i: "map_of (geolRow parseDepth 0 (Some 1) (Some 2) [] ?inf) ''BH1'' = Some (Finite 0, Infinity)"
    using inst' [THEN conjunct2, THEN conjunct2, THEN conjunct2, THEN conjunct2, THEN conjunct2,
        THEN conjunct1, THEN mp, OF conjI [OF e disjI1 [OF conjI [OF t' b']]]] .
  have dr: "depthRangesByLocation parseDepth (parseDocument geologyDocument) = [(''BH1'', Finite 0, Finite 3)]"
    by (simp add: depthRangesByLocation_def parse_geologyDocument geolRow_def parseFloatAt_def
        elemAt_def Let_def mathMin_def mathMax_def parseDepth_def)
  have l: "map (\<lambda>loc. (locId loc, depthMin loc, depthMax loc))
     (locations (generateSummary (\<lambda>k. None) parseDepth (parseDocument geologyDocument))) =
     [(''BH1'', Some (Finite 0), Some (Finite 3))]"
    by (simp add: locations_generateSummary parse_geologyDocument dr locaRow_def fieldAt_def
        elemAt_def Let_def)
  show ?thesis by (intro conjI h1 h2 g r l t b w b' i)
qed

section \<open>The format version\<close>

lemma matchKeyword_second:
  assumes "matchKeyword kw s" "kw \<noteq> []"
  shows "upper (s ! 1) = hd kw"
proof -
  have len: "length kw + 2 \<le> length s" and eq: "map upper (take (length kw + 2) s) = quote # kw @ [quote]"
    using assms(1) by (simp_all add: matchKeyword_def)
  have "map upper (take (length kw + 2) s) ! 1 = upper (s ! 1)"
    using len by simp
  moreover have "(quote # kw @ [quote]) ! 1 = hd kw"
    using assms(2) by (cases kw) simp_all
  ultimately show ?thesis using eq by simp
qed

lemma data_not_other:
  assumes "matchKeyword ''DATA'' s"
  shows "\<not> matchKeyword ''HEADING'' s" "\<not> matchKeyword ''UNIT'' s" "\<not> matchKeyword ''TYPE'' s"
    "\<not> matchKeyword ''GROUP'' s"
  using matchKeyword_second [OF assms] matchKeyword_second [of "''HEADING''" s]
    matchKeyword_second [of "''UNIT''" s] matchKeyword_second [of "''TYPE''" s]
    matchKeyword_second [of "''GROUP''" s]
  by auto

lemma data_not_group: "matchKeyword ''DATA'' s \<Longrightarrow> matchGroup s = None"
  using data_not_other(4) [of s] by (simp add: matchGroup_def)

lemma data_not_empty: "matchKeyword ''DATA'' s \<Longrightarrow> s \<noteq> []"
  by (auto simp: matchKeyword_def)

lemma version_store: "version (store g st) = version st"
  by (simp add: store_def)

lemma version_parseLine:
  "version (parseLine i l st) =
     (case capturedVersion st l of Some v \<Rightarrow> Some v | None \<Rightarrow> version st)"
proof (cases "matchKeyword ''DATA'' (trim l)")
  case True
  note d = data_not_other [OF True] data_not_group [OF True] data_not_empty [OF True]
  show ?thesis
    by (simp add: parseLine_def capturedVersion_def captureVersion_def Let_def True d version_store
        split: option.splits)
next
  case False
  then have "capturedVersion st l = None"
    by (simp add: capturedVersion_def split: option.splits)
  then show ?thesis
    using False by (simp add: parseLine_def Let_def version_store split: option.splits)
qed

lemma parseLines_snoc: "parseLines i (ls @ [l]) st = parseLine (i + length ls) l (parseLines i ls st)"
  by (induction ls arbitrary: i st) simp_all

lemma parse_transmissionDocument:
  "parseDocument transmissionDocument =
     \<lparr>groups = [(''TRAN'', \<lparr>name = ''TRAN'', gline = 0, headings = [''TRAN_ISNO'', ''TRAN_AGS''],
          headingLine = 1, dataCount = 2, units = [], types = [],
          data = [[''1'', ''4.1''], [''2'', '''']]\<rparr>)],
      version = Some ''4.1''\<rparr>"
  by code_simp

text \<open>
  Claim C9, as stated, fails: in the group TRAN with the column TRAN_AGS, the last data
  row has the empty string in that column, and the format version is still the value of
  the row before it.
\<close>

theorem format_version_counterexample:
  "map_of (groups (parseDocument transmissionDocument)) ''TRAN'' =
     Some \<lparr>name = ''TRAN'', gline = 0, headings = [''TRAN_ISNO'', ''TRAN_AGS''],
          headingLine = 1, dataCount = 2, units = [], types = [],
          data = [[''1'', ''4.1''], [''2'', '''']]\<rparr> \<and>
   elemAt [''2'', ''''] 1 = Some '''' \<and>
   version (parseDocument transmissionDocument) = Some ''4.1'' \<and>
   version (parseDocument transmissionDocument) \<noteq> Some ''''"
  by (simp add: parse_transmissionDocument elemAt_def)

text \<open>
  Claim C9, amended. While the current group is named TRAN, a data row whose field
  aligned with the column TRAN_AGS exists and is not empty sets the format version to
  that field; every other line leaves the format version as it was. So after any lines
  \<open>ls\<close> and one more line \<open>l\<close> the version is the value captured from \<open>l\<close>, if any,
  whatever was captured before: the last capturing row wins.
\<close>

theorem format_version_capture:
  "version (parseLine i l st) =
     (case capturedVersion st l of Some v \<Rightarrow> Some v | None \<Rightarrow> version st) \<and>
   version (parseLines i (ls @ [l]) st) =
     (case capturedVersion (parseLines i ls st) l of
        Some v \<Rightarrow> Some v
      | None \<Rightarrow> version (parseLines i ls st))"
  by (simp only: parseLines_snoc version_parseLine)

section \<open>Selecting a group\<close>

text \<open>
  Claim C3, as stated, fails: with the groups LOCA and GEOL in the document and GEOL
  active, a request for the group SAMP, which the document does not have, makes LOCA,
  the first group, the active one.
\<close>

theorem select_missing_group_counterexample:
  "map_of (groups (parseDocument geologyDocument)) ''SAMP'' = None \<and>
   currentGroup (handleSelectGroup
     \<lparr>panel = True, currentDocument = Some geologyDocument, currentGroup = Some ''GEOL''\<rparr> ''SAMP'') =
     Some ''LOCA'' \<and>
   Some ''LOCA'' \<noteq> Some ''GEOL''"
  by (simp add: handleSelectGroup_def updateContent_def Let_def falsy_def firstGroup_def
      parse_geologyDocument)

text \<open>
  Claim C3, amended. For every select-group request that names a group not present in
  the parsed document, while the panel is open and a document is bound, the active group
  becomes the first group of the document, or none when the document has no group.
\<close>

theorem select_missing_group:
  assumes "panel s" and "currentDocument s = Some document"
    and "map_of (groups (parseDocument document)) groupName = None"
  shows "currentGroup (handleSelectGroup s groupName) = firstGroup (parseDocument document)"
  using assms by (simp add: handleSelectGroup_def updateContent_def Let_def)

theorem select_missing_group_witness:
  "panel \<lparr>panel = True, currentDocument = Some geologyDocument, currentGroup = Some ''GEOL''\<rparr> \<and>
   currentDocument \<lparr>panel = True, currentDocument = Some geologyDocument, currentGroup = Some ''GEOL''\<rparr> =
     Some geologyDocument \<and>
   map_of (groups (parseDocument geologyDocument)) ''SAMP'' = None \<and>
   firstGroup (parseDocument geologyDocument) = Some ''LOCA'' \<and>
   currentGroup (handleSelectGroup
     \<lparr>panel = True, currentDocument = Some geologyDocument, currentGroup = Some ''GEOL''\<rparr> ''SAMP'') =
     Some ''LOCA''"
proof -
  let ?s = "\<lparr>panel = True, currentDocument = Some geologyDocument, currentGroup = Some ''GEOL''\<rparr>"
  have h1: "panel ?s" by simp
  have h2: "currentDocument ?s = Some geologyDocument" by simp
  have h3: "map_of (groups (parseDocument geologyDocument)) ''SAMP'' = None"
    by (simp add: parse_geologyDocument)
  have f: "firstGroup (parseDocument geologyDocument) = Some ''LOCA''"
    by (simp add: firstGroup_def parse_geologyDocument)
  have r: "currentGroup (handleSelectGroup ?s ''SAMP'') = Some ''LOCA''"
    using select_missing_group [OF h1 h2 h3] f by simp
  show ?thesis by (intro conjI h1 h2 h3 f r)
qed

section \<open>The highlighted row\<close>

lemma parse_gappedDocument:
  "groups (parseDocument gappedDocument) =
     [(''SAMP'', \<lparr>name = ''SAMP'', gline = 0, headings = [''LOCA_ID'', ''SAMP_TOP''],
          headingLine = 1, dataCount = 3, units = [], types = [],
          data = [[''BH1'', ''1.00''], [''BH1'', ''2.00''], [''BH1'', ''3.00'']]\<rparr>)]"
  by code_simp

text \<open>
  Claim C4 at a document whose second data row follows an empty line. With the cursor on
  that row (line 4; the first data row is on line 2) the highlight names row index 2,
  the difference of the two line numbers, while one data row precedes the cursor's line:
  the ordinal by count is 1, and it is the row with index 1 of the parsed group that
  this line holds and that \<open>getLineNumber\<close> resolves to this line. The message has the
  row type and the row index and no column.
\<close>

theorem highlight_row_index_by_line_difference:
  "map_of (groups (parseDocument gappedDocument)) ''SAMP'' =
     Some \<lparr>name = ''SAMP'', gline = 0, headings = [''LOCA_ID'', ''SAMP_TOP''],
          headingLine = 1, dataCount = 3, units = [], types = [],
          data = [[''BH1'', ''1.00''], [''BH1'', ''2.00''], [''BH1'', ''3.00'']]\<rparr> \<and>
   syncWithEditor \<lparr>panel = True, currentDocument = Some gappedDocument, currentGroup = Some ''SAMP''\<rparr>
     \<lparr>showsCurrentDocument = True, activeLine = 4\<rparr> =
     (\<lparr>panel = True, currentDocument = Some gappedDocument, currentGroup = Some ''SAMP''\<rparr>,
      Some (rDATA, 2)) \<and>
   findFirstDataLine gappedDocument
     \<lparr>name = ''SAMP'', gline = 0, headings = [''LOCA_ID'', ''SAMP_TOP''],
          headingLine = 1, dataCount = 3, units = [], types = [],
          data = [[''BH1'', ''1.00''], [''BH1'', ''2.00''], [''BH1'', ''3.00'']]\<rparr> = Some 2 \<and>
   dataOrdinal gappedDocument 2 4 = 1 \<and>
   getLineNumber gappedDocument
     \<lparr>name = ''SAMP'', gline = 0, headings = [''LOCA_ID'', ''SAMP_TOP''],
          headingLine = 1, dataCount = 3, units = [], types = [],
          data = [[''BH1'', ''1.00''], [''BH1'', ''2.00''], [''BH1'', ''3.00'']]\<rparr> rDATA 1 = Some 4"
proof -
  let ?g = "\<lparr>name = ''SAMP'', gline = 0, headings = [''LOCA_ID'', ''SAMP_TOP''],
          headingLine = 1, dataCount = 3, units = [], types = [],
          data = [[''BH1'', ''1.00''], [''BH1'', ''2.00''], [''BH1'', ''3.00'']]\<rparr>"
  have g: "map_of (groups (parseDocument gappedDocument)) ''SAMP'' = Some ?g"
    by (simp add: parse_gappedDocument)
  have a: "syncWithEditor \<lparr>panel = True, currentDocument = Some gappedDocument, currentGroup = Some ''SAMP''\<rparr>
     \<lparr>showsCurrentDocument = True, activeLine = 4\<rparr> =
     (\<lparr>panel = True, currentDocument = Some gappedDocument, currentGroup = Some ''SAMP''\<rparr>,
      Some (rDATA, 2))"
    by code_simp
  have b: "findFirstDataLine gappedDocument ?g = Some 2"
    by code_simp
  have c: "dataOrdinal gappedDocument 2 4 = 1"
    by code_simp
  have d: "getLineNumber gappedDocument ?g rDATA 1 = Some 4"
    by code_simp
  show ?thesis by (intro conjI g a b c d)
qed

section \<open>The bounded re-scan\<close>

lemma keyword_exclusive:
  assumes "matchKeyword k1 s" "matchKeyword k2 s" "k1 \<noteq> []" "k2 \<noteq> []"
  shows "hd k1 = hd k2"
  using matchKeyword_second [OF assms(1,3)] matchKeyword_second [OF assms(2,4)] by simp

lemma scanStop_here:
  assumes "i < length document" "i < limit" "groupLine < i" "matchKeyword ''GROUP'' (document ! i)"
  shows "scanStop document groupLine limit i = i"
proof -
  have "[i ..< min (length document) limit] = i # [Suc i ..< min (length document) limit]"
    using assms(1,2) by (simp add: upt_conv_Cons)
  then show ?thesis using assms(3,4) by (simp add: scanStop_def)
qed

lemma scanStop_next:
  assumes "i < length document" "i < limit" "\<not> (groupLine < i \<and> matchKeyword ''GROUP'' (document ! i))"
  shows "scanStop document groupLine limit i = scanStop document groupLine limit (Suc i)"
proof -
  have u: "[i ..< min (length document) limit] = i # [Suc i ..< min (length document) limit]"
    using assms(1,2) by (simp add: upt_conv_Cons)
  have m: "max i (min (length document) limit) = max (Suc i) (min (length document) limit)"
    using assms(1,2) by simp
  show ?thesis unfolding scanStop_def u using assms(3) m by (auto split: list.splits)
qed

lemma scanStop_ge: "i \<le> scanStop document groupLine limit i"
proof (cases "filter (\<lambda>j. groupLine < j \<and> matchKeyword ''GROUP'' (document ! j))
             [i ..< min (length document) limit]")
  case Nil
  then show ?thesis by (simp add: scanStop_def)
next
  case (Cons j js)
  then have "j \<in> set (filter (\<lambda>j. groupLine < j \<and> matchKeyword ''GROUP'' (document ! j))
             [i ..< min (length document) limit])" by simp
  then have "i \<le> j" by simp
  then show ?thesis using Cons by (simp add: scanStop_def)
qed


lemma scanStop_end:
  "\<not> (i < length document \<and> i < limit) \<Longrightarrow> scanStop document groupLine limit i = i"
  by (auto simp: scanStop_def)

lemma lineScan_dataLines:
  "snd (snd (lineScan document groupLine limit i unitLine typeLine dataLines)) =
     dataLines @ filter (\<lambda>j. matchKeyword ''DATA'' (document ! j))
                   [i ..< scanStop document groupLine limit i]"
proof (induction document groupLine limit i unitLine typeLine dataLines rule: lineScan.induct)
  case (1 document groupLine limit i unitLine typeLine dataLines)
  note unfold = lineScan.simps [of document groupLine limit i unitLine typeLine dataLines]
  let ?D = "\<lambda>j. matchKeyword ''DATA'' (document ! j)"
  show ?case
  proof (cases "i < length document \<and> i < limit")
    case guard: False
    have "lineScan document groupLine limit i unitLine typeLine dataLines = (unitLine, typeLine, dataLines)"
      unfolding unfold by (rule if_not_P) (rule guard)
    then show ?thesis by (simp add: scanStop_end [OF guard])
  next
    case guard: True
    have il: "i < length document" "i < limit" using guard by simp_all
    have upt: "[i ..< scanStop document groupLine limit (Suc i)] =
        i # [Suc i ..< scanStop document groupLine limit (Suc i)]"
      using scanStop_ge [of "Suc i" document groupLine limit] by (simp add: upt_conv_Cons)
    show ?thesis
    proof (cases "matchKeyword ''UNIT'' (document ! i) \<and> unitLine = None")
      case u: True
      then have nd: "\<not> ?D i" and ng: "\<not> matchKeyword ''GROUP'' (document ! i)"
        using keyword_exclusive [of "''UNIT''" "document ! i" "''DATA''"]
          keyword_exclusive [of "''UNIT''" "document ! i" "''GROUP''"] by auto
      have "lineScan document groupLine limit i unitLine typeLine dataLines =
            lineScan document groupLine limit (i + 1) (Some i) typeLine dataLines"
        by (subst unfold) (simp add: guard u)
      then show ?thesis
        using "1.IH"(1) [OF guard u] nd ng scanStop_next [OF il, of groupLine] by (simp add: upt)
    next
      case nu: False
      show ?thesis
      proof (cases "matchKeyword ''TYPE'' (document ! i) \<and> typeLine = None")
        case t: True
        then have nd: "\<not> ?D i" and ng: "\<not> matchKeyword ''GROUP'' (document ! i)"
          using keyword_exclusive [of "''TYPE''" "document ! i" "''DATA''"]
            keyword_exclusive [of "''TYPE''" "document ! i" "''GROUP''"] by auto
        have "lineScan document groupLine limit i unitLine typeLine dataLines =
              lineScan document groupLine limit (i + 1) unitLine (Some i) dataLines"
          by (subst unfold) (use guard nu t in auto)
        then show ?thesis
          using "1.IH"(2) [OF guard nu t] nd ng scanStop_next [OF il, of groupLine] by (simp add: upt)
      next
        case nt: False
        show ?thesis
        proof (cases "?D i")
          case d: True
          then have ng: "\<not> matchKeyword ''GROUP'' (document ! i)"
            using keyword_exclusive [of "''DATA''" "document ! i" "''GROUP''"] by auto
          have "lineScan document groupLine limit i unitLine typeLine dataLines =
                lineScan document groupLine limit (i + 1) unitLine typeLine (dataLines @ [i])"
            by (subst unfold) (use guard nu nt d in auto)
          then show ?thesis
            using "1.IH"(3) [OF guard nu nt d] d ng scanStop_next [OF il, of groupLine] by (simp add: upt)
        next
          case nd: False
          show ?thesis
          proof (cases "matchKeyword ''GROUP'' (document ! i) \<and> i > groupLine")
            case g: True
            have "lineScan document groupLine limit i unitLine typeLine dataLines =
                  (unitLine, typeLine, dataLines)"
              by (subst unfold) (use guard nu nt nd g in auto)
            moreover have "scanStop document groupLine limit i = i"
              using il g by (simp add: scanStop_here)
            ultimately show ?thesis by simp
          next
            case ng: False
            have "lineScan document groupLine limit i unitLine typeLine dataLines =
                  lineScan document groupLine limit (i + 1) unitLine typeLine dataLines"
              by (subst unfold) (use guard nu nt nd ng in auto)
            moreover have "scanStop document groupLine limit i = scanStop document groupLine limit (Suc i)"
              using il ng by (intro scanStop_next) auto
            ultimately show ?thesis
              using "1.IH"(4) [OF guard nu nt nd ng] nd by (simp add: upt)
          qed
        qed
      qed
    qed
  qed
qed

lemma getLineNumber_DATA:
  "getLineNumber document grp rDATA ri = atInt (windowDataLines document grp) ri"
proof -
  obtain u t ds where r: "lineScan document (gline grp) (gline grp + dataCount grp + 10) (gline grp)
      None None [] = (u, t, ds)"
    by (cases "lineScan document (gline grp) (gline grp + dataCount grp + 10) (gline grp) None None []")
  have "ds = windowDataLines document grp"
    using lineScan_dataLines [of document "gline grp" "gline grp + dataCount grp + 10" "gline grp" None None "[]"]
    by (simp add: r windowDataLines_def)
  then show ?thesis by (simp add: getLineNumber_def r)
qed


lemma windowDataLines_in_document:
  "n \<in> set (windowDataLines document grp) \<Longrightarrow> n < length document \<and> matchKeyword ''DATA'' (document ! n)"
proof -
  assume n: "n \<in> set (windowDataLines document grp)"
  let ?limit = "gline grp + dataCount grp + 10"
  let ?stop = "scanStop document (gline grp) ?limit (gline grp)"
  have d: "matchKeyword ''DATA'' (document ! n)" and lt: "n < ?stop" and ge: "gline grp \<le> n"
    using n by (simp_all add: windowDataLines_def)
  have "?stop \<le> length document"
  proof (cases "filter (\<lambda>j. gline grp < j \<and> matchKeyword ''GROUP'' (document ! j))
             [gline grp ..< min (length document) ?limit]")
    case Nil
    then have "?stop = max (gline grp) (min (length document) ?limit)"
      by (simp add: scanStop_def)
    moreover have "gline grp < length document"
    proof (rule ccontr)
      assume "\<not> gline grp < length document"
      then have "?stop = gline grp" by (simp add: scanStop_end)
      then show False using lt ge by simp
    qed
    ultimately show ?thesis by simp
  next
    case (Cons j js)
    then have "j \<in> set (filter (\<lambda>j. gline grp < j \<and> matchKeyword ''GROUP'' (document ! j))
             [gline grp ..< min (length document) ?limit])" by simp
    then have "j < length document" by simp
    then show ?thesis using Cons by (simp add: scanStop_def)
  qed
  then show ?thesis using d lt by simp
qed



section \<open>Applying a cell edit\<close>

lemma shape_update:
  "map (\<lambda>kv. (fst kv, shapeOf (snd kv))) (AList.update k v xs) =
     AList.update k (shapeOf v) (map (\<lambda>kv. (fst kv, shapeOf (snd kv))) xs)"
  by (induction xs) auto

lemma sameShape_store:
  "sameShape st st' \<Longrightarrow> shapeOf g = shapeOf g' \<Longrightarrow> sameShape (store g st) (store g' st')"
  by (simp add: sameShape_def store_def shape_update) (simp add: shapeOf_def)

lemma sameShape_captureVersion:
  "sameShape st st' \<Longrightarrow> sameShape (captureVersion g flds st) (captureVersion g' flds' st')"
  by (simp add: sameShape_def captureVersion_def split: option.splits)

lemma sameShape_current:
  assumes "sameShape st st'"
  shows "(pCurrentGroup st = None) = (pCurrentGroup st' = None)"
    and "pCurrentGroup st = Some g \<Longrightarrow> pCurrentGroup st' = Some g' \<Longrightarrow> shapeOf g = shapeOf g'"
  using assms by (auto simp: sameShape_def)

lemma sameShape_parseLine:
  assumes "sameShape st st'"
    and "l = l' \<or> (matchKeyword ''DATA'' (trim l) \<and> matchKeyword ''DATA'' (trim l'))"
  shows "sameShape (parseLine i l st) (parseLine i l' st')"
proof (cases "matchKeyword ''DATA'' (trim l) \<and> matchKeyword ''DATA'' (trim l')")
  case True
  note d = data_not_other [of "trim l"] data_not_group [of "trim l"] data_not_empty [of "trim l"]
  note d' = data_not_other [of "trim l'"] data_not_group [of "trim l'"] data_not_empty [of "trim l'"]
  show ?thesis
  proof (cases "pCurrentGroup st")
    case None
    then have "pCurrentGroup st' = None" using sameShape_current(1) [OF assms(1)] by simp
    then show ?thesis using None True d d' assms(1) by (simp add: parseLine_def Let_def)
  next
    case (Some g)
    then obtain g' where g': "pCurrentGroup st' = Some g'"
      using sameShape_current(1) [OF assms(1)] by (cases "pCurrentGroup st'") auto
    have sh: "shapeOf g = shapeOf g'" using Some g' by (rule sameShape_current(2) [OF assms(1)])
    let ?h = "g\<lparr>data := data g @ [drop 1 (extractQuotedFields (trim l))], dataCount := dataCount g + 1\<rparr>"
    let ?h' = "g'\<lparr>data := data g' @ [drop 1 (extractQuotedFields (trim l'))], dataCount := dataCount g' + 1\<rparr>"
    have shh: "shapeOf ?h = shapeOf ?h'" using sh by (simp add: shapeOf_def)
    have st: "sameShape (store ?h st) (store ?h' st')" using assms(1) shh by (rule sameShape_store)
    have nm: "name g = name g'" using sh by (simp add: shapeOf_def)
    have l: "parseLine i l st = (if name g = ''TRAN'' then captureVersion ?h (extractQuotedFields (trim l)) (store ?h st)
        else store ?h st)"
      using True d Some by (simp add: parseLine_def Let_def)
    have l': "parseLine i l' st' = (if name g' = ''TRAN'' then captureVersion ?h' (extractQuotedFields (trim l')) (store ?h' st')
        else store ?h' st')"
      using True d' g' by (simp add: parseLine_def Let_def)
    show ?thesis unfolding l l' using st nm by (simp add: sameShape_captureVersion)
  qed
next
  case False
  then have eq: "l' = l" using assms(2) by auto
  show ?thesis
  proof (cases "pCurrentGroup st")
    case None
    then have "pCurrentGroup st' = None" using sameShape_current(1) [OF assms(1)] by simp
    then show ?thesis using None assms(1)
      by (auto simp: parseLine_def Let_def eq sameShape_store shapeOf_def split: option.splits)
  next
    case (Some g)
    then obtain g' where g': "pCurrentGroup st' = Some g'"
      using sameShape_current(1) [OF assms(1)] by (cases "pCurrentGroup st'") auto
    have sh: "shapeOf g = shapeOf g'" using Some g' by (rule sameShape_current(2) [OF assms(1)])
    have nd: "\<not> matchKeyword ''DATA'' (trim l)" using False eq by simp
    show ?thesis using Some g' assms(1) nd sh
      by (auto simp: parseLine_def Let_def eq shapeOf_def intro!: sameShape_store split: option.splits)
  qed
qed

lemma sameShape_parseLines:
  assumes "sameShape st st'"
    and "n < length ls \<Longrightarrow> matchKeyword ''DATA'' (trim (ls ! n)) \<and> matchKeyword ''DATA'' (trim l')"
  shows "sameShape (parseLines i ls st) (parseLines i (ls[n := l']) st')"
  using assms
proof (induction ls arbitrary: i n st st')
  case Nil
  then show ?case by simp
next
  case (Cons l ls)
  show ?case
  proof (cases n)
    case 0
    have "sameShape (parseLine i l st) (parseLine i l' st')"
      using Cons.prems 0 by (intro sameShape_parseLine) auto
    then have "sameShape (parseLines (i + 1) ls (parseLine i l st))
        (parseLines (i + 1) (ls[length ls := l']) (parseLine i l' st'))"
      by (rule Cons.IH) simp
    then show ?thesis using 0 by (simp add: list_update_beyond)
  next
    case (Suc m)
    have "sameShape (parseLine i l st) (parseLine i l st')"
      using Cons.prems(1) by (intro sameShape_parseLine) auto
    then have "sameShape (parseLines (i + 1) ls (parseLine i l st))
        (parseLines (i + 1) (ls[m := l']) (parseLine i l st'))"
      using Cons.prems(2) Suc by (intro Cons.IH) auto
    then show ?thesis using Suc by simp
  qed
qed

lemma reparse_shape:
  assumes "n < length document" "matchKeyword ''DATA'' (trim (document ! n))" "matchKeyword ''DATA'' (trim l')"
  shows "map_option shapeOf (map_of (groups (parseDocument (document[n := l']))) k) =
         map_option shapeOf (map_of (groups (parseDocument document)) k)"
proof -
  have "sameShape initialState initialState" by (simp add: sameShape_def)
  then have "sameShape (parseLines 0 document initialState) (parseLines 0 (document[n := l']) initialState)"
    using assms by (intro sameShape_parseLines) auto
  then have "map (\<lambda>kv. (fst kv, shapeOf (snd kv))) (groups (parseDocument document)) =
       map (\<lambda>kv. (fst kv, shapeOf (snd kv))) (groups (parseDocument (document[n := l'])))"
    by (simp add: sameShape_def groups_parseDocument)
  then have "map_of (map (\<lambda>kv. (fst kv, shapeOf (snd kv))) (groups (parseDocument document))) k =
       map_of (map (\<lambda>kv. (fst kv, shapeOf (snd kv))) (groups (parseDocument (document[n := l'])))) k"
    by simp
  then show ?thesis by (simp add: map_of_map [unfolded split_def])
qed

lemma example_row_range: \<open>getCellRange ''"DATA","BH1","2.50"'' n 1 = Some (n, 14, 18)\<close>
  by (simp add: getCellRange_def cellRangeLoop.simps closingQuote.simps quote_def)


lemma example_rows_are_data:
  \<open>matchKeyword ''DATA'' (trim ''"DATA","BH1","2.50"'') \<and>
   matchKeyword ''DATA'' (trim ''"DATA","BH1","9.99"'')\<close>
  by code_simp

lemma upper_quote: "upper c = quote \<Longrightarrow> c = quote"
proof (cases "map_of (zip ''abcdefghijklmnopqrstuvwxyz'' ''ABCDEFGHIJKLMNOPQRSTUVWXYZ'') c")
  case None
  assume "upper c = quote"
  then show ?thesis using None by (simp add: upper_def)
next
  case (Some u)
  assume "upper c = quote"
  then have "u = quote" using Some by (simp add: upper_def)
  moreover have "u \<in> set ''ABCDEFGHIJKLMNOPQRSTUVWXYZ''"
    using map_of_SomeD [OF Some] by (rule set_zip_rightD)
  ultimately show ?thesis by (simp add: quote_def)
qed

lemma matchKeyword_trim:
  assumes "matchKeyword kw s"
  shows "matchKeyword kw (trim s)"
proof -
  let ?n = "length kw + 2"
  let ?p = "take ?n s"
  have len: "?n \<le> length s" and eq: "map upper ?p = quote # kw @ [quote]"
    using assms by (simp_all add: matchKeyword_def)
  have ns: "\<not> isSpace quote" by (simp add: isSpace_def quote_def)
  have lp: "length ?p = ?n" using len by simp
  have "map upper ?p ! 0 = quote" using eq by simp
  then have "upper (?p ! 0) = quote" using lp by simp
  then have first: "s ! 0 = quote" using upper_quote by simp
  have "map upper ?p ! (length kw + 1) = quote" using eq by (simp add: nth_append)
  then have "upper (?p ! (length kw + 1)) = quote" using lp by simp
  then have "?p ! (length kw + 1) = quote" by (rule upper_quote)
  then have pq: "?p ! (length ?p - 1) = quote" by (simp only: lp) simp
  have pne: "?p \<noteq> []" using lp by auto
  have lastp: "last ?p = quote" using pq by (simp only: last_conv_nth [OF pne])
  have "s \<noteq> []" using len by auto
  then have "dropWhile isSpace s = s" using first ns by (cases s) simp_all
  then have tr: "trim s = rev (dropWhile isSpace (rev s))" by (simp add: trim_def)
  have s: "s = ?p @ drop ?n s" by simp
  have "hd (rev ?p) = quote" using lastp pne by (simp add: hd_rev)
  then have dp: "dropWhile isSpace (rev ?p) = rev ?p"
    using ns pne by (cases "rev ?p") simp_all
  have rs: "rev s = rev (drop ?n s) @ rev ?p" by (subst s) (simp only: rev_append)
  have "\<exists>x. dropWhile isSpace (rev (drop ?n s) @ rev ?p) = x @ rev ?p"
  proof (cases "\<forall>c \<in> set (rev (drop ?n s)). isSpace c")
    case True
    then have "dropWhile isSpace (rev (drop ?n s) @ rev ?p) = [] @ rev ?p"
      by (simp only: dropWhile_append2 dp append_Nil)
    then show ?thesis by blast
  next
    case False
    then obtain c where "c \<in> set (rev (drop ?n s))" "\<not> isSpace c" by blast
    then have "dropWhile isSpace (rev (drop ?n s) @ rev ?p) =
        dropWhile isSpace (rev (drop ?n s)) @ rev ?p"
      by (rule dropWhile_append1)
    then show ?thesis by blast
  qed
  then have "\<exists>x. dropWhile isSpace (rev s) = x @ rev ?p"
    by (simp only: rs)
  then obtain x where "dropWhile isSpace (rev s) = x @ rev ?p" by blast
  then have "trim s = ?p @ rev x" by (simp add: tr)
  then have "take ?n (trim s) = ?p \<and> ?n \<le> length (trim s)" using lp by simp
  then show ?thesis using eq by (simp add: matchKeyword_def)
qed

lemma matchGroup_keyword: "matchGroup s = Some nm \<Longrightarrow> matchKeyword ''GROUP'' s \<and> nm \<noteq> []"
  by (auto simp: matchGroup_def Let_def split: if_splits list.splits)

lemma windowDataLines_first:
  assumes "gline grp \<le> n" "n < length document" "n < gline grp + dataCount grp + 10"
    and "matchKeyword ''DATA'' (document ! n)"
    and "\<forall>j. gline grp < j \<and> j < n \<longrightarrow> \<not> matchKeyword ''GROUP'' (document ! j)"
    and "\<forall>j. gline grp \<le> j \<and> j < n \<longrightarrow> \<not> matchKeyword ''DATA'' (document ! j)"
  shows "atInt (windowDataLines document grp) 0 = Some n"
proof -
  let ?limit = "gline grp + dataCount grp + 10"
  let ?stop = "scanStop document (gline grp) ?limit (gline grp)"
  let ?D = "\<lambda>i. matchKeyword ''DATA'' (document ! i)"
  have stop: "n < ?stop"
  proof (cases "filter (\<lambda>j. gline grp < j \<and> matchKeyword ''GROUP'' (document ! j))
             [gline grp ..< min (length document) ?limit]")
    case Nil
    then have "?stop = max (gline grp) (min (length document) ?limit)" by (simp add: scanStop_def)
    then show ?thesis using assms(2,3) by simp
  next
    case (Cons j js)
    then have "j \<in> set (filter (\<lambda>j. gline grp < j \<and> matchKeyword ''GROUP'' (document ! j))
             [gline grp ..< min (length document) ?limit])" by simp
    then have j: "gline grp < j" "matchKeyword ''GROUP'' (document ! j)" by simp_all
    have "j \<noteq> n" using j(2) assms(4) keyword_exclusive [of "''GROUP''" "document ! n" "''DATA''"] by auto
    moreover have "\<not> j < n" using j assms(5) by blast
    ultimately have "n < j" by simp
    then show ?thesis using Cons by (simp add: scanStop_def)
  qed
  obtain k where k: "?stop = n + k" using stop by (metis less_imp_add_positive)
  have "[gline grp ..< n + k] = [gline grp ..< n] @ [n ..< n + k]"
    using assms(1) by (rule upt_add_eq_append)
  moreover have "[n ..< ?stop] = n # [Suc n ..< ?stop]"
    using stop by (rule upt_conv_Cons)
  ultimately have "[gline grp ..< ?stop] = [gline grp ..< n] @ n # [Suc n ..< ?stop]"
    by (simp only: k)
  moreover have "filter ?D [gline grp ..< n] = []"
    using assms(6) by (auto simp: filter_empty_conv)
  ultimately have "windowDataLines document grp = n # filter ?D [Suc n ..< ?stop]"
    using assms(4) by (simp add: windowDataLines_def)
  then show ?thesis by (simp add: atInt_def elemAt_def)
qed

lemma parseLines_append:
  "parseLines i (xs @ ys) st = parseLines (i + length xs) ys (parseLines i xs st)"
  by (induction xs arbitrary: i st) simp_all

lemma current_store: "pCurrentGroup (store g st) = Some g"
  by (simp add: store_def)

lemma parseLine_declares:
  assumes "matchGroup (trim l) = Some nm"
  shows "map_option rowsOf (pCurrentGroup (parseLine i l st)) = Some (nm, i, [])"
proof -
  have "trim l \<noteq> []" using matchGroup_keyword [OF assms] by (auto simp: matchKeyword_def)
  then show ?thesis using assms by (simp add: parseLine_def Let_def current_store rowsOf_def)
qed

lemma parseLine_quiet:
  assumes "matchGroup (trim l) = None" "\<not> matchKeyword ''DATA'' (trim l)"
  shows "map_option rowsOf (pCurrentGroup (parseLine i l st)) = map_option rowsOf (pCurrentGroup st)"
  using assms by (auto simp: parseLine_def Let_def current_store rowsOf_def split: option.splits)

lemma parseLines_quiet:
  assumes "\<forall>l \<in> set ls. matchGroup (trim l) = None \<and> \<not> matchKeyword ''DATA'' (trim l)"
  shows "map_option rowsOf (pCurrentGroup (parseLines i ls st)) = map_option rowsOf (pCurrentGroup st)"
  using assms by (induction ls arbitrary: i st) (simp_all add: parseLine_quiet)

lemma current_before_row:
  assumes "g < n" "n \<le> length document" "matchGroup (trim (document ! g)) = Some nm"
    and "\<forall>j. g < j \<and> j < n \<longrightarrow> matchGroup (trim (document ! j)) = None \<and>
           \<not> matchKeyword ''DATA'' (trim (document ! j))"
  shows "map_option rowsOf (pCurrentGroup (parseLines 0 (take n document) initialState)) = Some (nm, g, [])"
proof -
  let ?seg = "drop (Suc g) (take n document)"
  have gl: "g < length document" using assms(1,2) by simp
  have "take n document = take (Suc g) (take n document) @ ?seg"
    by (rule append_take_drop_id [symmetric])
  also have "take (Suc g) (take n document) = take g document @ [document ! g]"
    using assms(1) gl by (simp add: take_Suc_conv_app_nth min_def)
  finally have split: "take n document = (take g document @ [document ! g]) @ ?seg" .
  have quiet: "\<forall>l \<in> set ?seg. matchGroup (trim l) = None \<and> \<not> matchKeyword ''DATA'' (trim l)"
  proof
    fix l assume "l \<in> set ?seg"
    then obtain k where k: "k < length ?seg" "l = ?seg ! k" by (auto simp: in_set_conv_nth)
    then have "l = document ! (Suc g + k)" and "Suc g + k < n" using assms(2) by simp_all
    then show "matchGroup (trim l) = None \<and> \<not> matchKeyword ''DATA'' (trim l)"
      using assms(4) by simp
  qed
  have "parseLines 0 (take n document) initialState =
      parseLines (Suc g) ?seg (parseLine g (document ! g) (parseLines 0 (take g document) initialState))"
    using gl by (subst split) (simp add: parseLines_append parseLines_snoc min_def)
  then show ?thesis
    by (simp add: parseLines_quiet [OF quiet] parseLine_declares [OF assms(3)])
qed

lemma parse_farDocument:
  "groups (parseDocument farDocument) =
     [(''GEOL'', \<lparr>name = ''GEOL'', gline = 0, headings = [''LOCA_ID'', ''GEOL_TOP''], headingLine = 1,
         dataCount = 1, units = [], types = [], data = [[''BH1'', ''2.50'']]\<rparr>)]"
  by code_simp

text \<open>
  Claim C1, as stated, fails: the line \<open>"DATA","BH1","2.50"\<close> is the single data row of
  the group GEOL, eleven lines below the group's declaration. The re-scan covers the
  lines 0 to 10 only, resolves no line for the row 0, and the request changes nothing.
\<close>

theorem cell_edit_far_row_counterexample:
  \<open>map_of (groups (parseDocument farDocument)) ''GEOL'' =
     Some \<lparr>name = ''GEOL'', gline = 0, headings = [''LOCA_ID'', ''GEOL_TOP''], headingLine = 1,
         dataCount = 1, units = [], types = [], data = [[''BH1'', ''2.50'']]\<rparr> \<and>
   farDocument ! 11 = ''"DATA","BH1","2.50"'' \<and>
   getLineNumber farDocument
     \<lparr>name = ''GEOL'', gline = 0, headings = [''LOCA_ID'', ''GEOL_TOP''], headingLine = 1,
         dataCount = 1, units = [], types = [], data = [[''BH1'', ''2.50'']]\<rparr> rDATA 0 = None \<and>
   handleCellEdit \<lparr>panel = True, currentDocument = Some farDocument, currentGroup = Some ''GEOL''\<rparr>
       \<lparr>rowType = rDATA, rowIndex = 0, colIndex = 1, oldValue = ''2.50'', newValue = ''9.99''\<rparr> =
     \<lparr>panel = True, currentDocument = Some farDocument, currentGroup = Some ''GEOL''\<rparr>\<close>
proof -
  let ?g = "\<lparr>name = ''GEOL'', gline = 0, headings = [''LOCA_ID'', ''GEOL_TOP''], headingLine = 1,
         dataCount = 1, units = [], types = [], data = [[''BH1'', ''2.50'']]\<rparr>"
  let ?s = "\<lparr>panel = True, currentDocument = Some farDocument, currentGroup = Some ''GEOL''\<rparr>"
  have g: "map_of (groups (parseDocument farDocument)) ''GEOL'' = Some ?g"
    by (simp add: parse_farDocument)
  have l: \<open>farDocument ! 11 = ''"DATA","BH1","2.50"''\<close>
    by (simp add: farDocument_def)
  have n: "getLineNumber farDocument ?g rDATA 0 = None"
    by code_simp
  have "cellEdit ?s \<lparr>rowType = rDATA, rowIndex = 0, colIndex = 1, oldValue = ''2.50'', newValue = ''9.99''\<rparr>
      = None"
    by code_simp
  then have h: "handleCellEdit ?s
      \<lparr>rowType = rDATA, rowIndex = 0, colIndex = 1, oldValue = ''2.50'', newValue = ''9.99''\<rparr> = ?s"
    by (simp add: handleCellEdit_def)
  show ?thesis by (intro conjI g l n h)
qed

text \<open>
  Claim C1, amended. Let the active group be declared on its start line and have one
  data row, the line \<open>n\<close> reading \<open>"DATA","BH1","2.50"\<close>: no group is declared and no
  data row stands between the start line and \<open>n\<close>. Let \<open>n\<close> lie within the window of
  the re-scan, at most 10 lines below the start line, with no line between them that
  begins, as written, with the quoted keyword GROUP. Then the parser reads line \<open>n\<close> as
  the first row of that group, the re-scan resolves the row 0 to \<open>n\<close>, and the request
  to set the cell (DATA, 0, 1) to \<open>9.99\<close> resolves the span of the characters 14 to 18
  of that line, which is the text \<open>2.50\<close> between the quotes of the field with index
  2; the handler replaces it, so that the line reads \<open>"DATA","BH1","9.99"\<close> and no
  other line changes; and after parsing the edited document the group still has
  \<open>dataCount\<close> 1.
\<close>

theorem cell_edit_replaces_quoted_content:
  assumes "currentDocument s = Some document" and "currentGroup s = Some groupName"
    and "map_of (groups (parseDocument document)) groupName = Some grp"
    and "dataCount grp = 1"
    and "matchGroup (trim (document ! gline grp)) = Some groupName"
    and "gline grp < n" and "n < length document"
    and \<open>document ! n = ''"DATA","BH1","2.50"''\<close>
    and "\<forall>j. gline grp < j \<and> j < n \<longrightarrow>
           matchGroup (trim (document ! j)) = None \<and> \<not> matchKeyword ''DATA'' (trim (document ! j))"
    and "n \<le> gline grp + 10"
    and "\<forall>j. gline grp < j \<and> j < n \<longrightarrow> \<not> matchKeyword ''GROUP'' (document ! j)"
  shows \<open>map_option rowsOf (pCurrentGroup (parseLines 0 (take n document) initialState)) =
           Some (groupName, gline grp, []) \<and>
         getLineNumber document grp rDATA 0 = Some n \<and>
         getCellRange (document ! n) n 1 = Some (n, 14, 18) \<and>
         take (18 - 14) (drop 14 (document ! n)) = ''2.50'' \<and>
         handleCellEdit s \<lparr>rowType = rDATA, rowIndex = 0, colIndex = 1,
                           oldValue = ''2.50'', newValue = ''9.99''\<rparr> =
           s\<lparr>currentDocument := Some (document[n := ''"DATA","BH1","9.99"''])\<rparr> \<and>
         map_option dataCount
           (map_of (groups (parseDocument (document[n := ''"DATA","BH1","9.99"'']))) groupName) = Some 1\<close>
proof -
  let ?m = "\<lparr>rowType = rDATA, rowIndex = 0, colIndex = 1, oldValue = ''2.50'', newValue = ''9.99''\<rparr>"
  have d: \<open>matchKeyword ''DATA'' (trim (document ! n))\<close>
    using example_rows_are_data by (simp only: assms(8))
  have d': \<open>matchKeyword ''DATA'' (trim ''"DATA","BH1","9.99"'')\<close>
    using example_rows_are_data by (rule conjunct2)
  have du: \<open>matchKeyword ''DATA'' (document ! n)\<close>
    unfolding assms(8) by code_simp
  have p: "map_option rowsOf (pCurrentGroup (parseLines 0 (take n document) initialState)) =
      Some (groupName, gline grp, [])"
    using assms(6) less_imp_le [OF assms(7)] assms(5,9) by (rule current_before_row)
  have ne: "groupName \<noteq> []" using matchGroup_keyword [OF assms(5)] by simp
  have nodata: "\<forall>j. gline grp \<le> j \<and> j < n \<longrightarrow> \<not> matchKeyword ''DATA'' (document ! j)"
  proof (intro allI impI)
    fix j assume j: "gline grp \<le> j \<and> j < n"
    show "\<not> matchKeyword ''DATA'' (document ! j)"
    proof
      assume "matchKeyword ''DATA'' (document ! j)"
      then have t: "matchKeyword ''DATA'' (trim (document ! j))" by (rule matchKeyword_trim)
      show False
      proof (cases "j = gline grp")
        case True
        have "matchKeyword ''GROUP'' (trim (document ! j))"
          using matchGroup_keyword [OF assms(5)] True by simp
        then show False using data_not_other(4) [OF t] by simp
      next
        case False
        then show False using j t assms(9) by auto
      qed
    qed
  qed
  have "atInt (windowDataLines document grp) 0 = Some n"
    using less_imp_le [OF assms(6)] assms(7) _ du assms(11) nodata
    by (rule windowDataLines_first) (use assms(4,10) in simp)
  then have ln: "getLineNumber document grp rDATA 0 = Some n"
    by (simp add: getLineNumber_DATA)
  have r: "getCellRange (document ! n) n 1 = Some (n, 14, 18)"
    by (simp only: assms(8) example_row_range)
  have t: \<open>take (18 - 14) (drop 14 (document ! n)) = ''2.50''\<close>
    by (simp add: assms(8))
  have "cellEdit s ?m = Some ((n, 14, 18), ''9.99'')"
    using assms(1-3) ne ln r by (simp add: cellEdit_def falsy_def)
  moreover have \<open>applyEdit ((n, 14, 18), ''9.99'') document = document[n := ''"DATA","BH1","9.99"'']\<close>
    by (simp add: applyEdit_def assms(8))
  ultimately have h: \<open>handleCellEdit s ?m =
      s\<lparr>currentDocument := Some (document[n := ''"DATA","BH1","9.99"''])\<rparr>\<close>
    using assms(1) by (simp add: handleCellEdit_def)
  have \<open>map_option shapeOf (map_of (groups (parseDocument (document[n := ''"DATA","BH1","9.99"'']))) groupName) =
      map_option shapeOf (map_of (groups (parseDocument document)) groupName)\<close>
    using assms(7) d d' by (rule reparse_shape)
  then have c: \<open>map_option dataCount
      (map_of (groups (parseDocument (document[n := ''"DATA","BH1","9.99"'']))) groupName) = Some 1\<close>
    using assms(3,4) by (auto simp: shapeOf_def)
  show ?thesis by (intro conjI p ln r t h c)
qed

theorem cell_edit_replaces_quoted_content_witness:
  \<open>map_of (groups (parseDocument editDocument)) ''GEOL'' =
     Some \<lparr>name = ''GEOL'', gline = 0, headings = [''LOCA_ID'', ''GEOL_TOP''], headingLine = 1,
       dataCount = 1, units = [], types = [], data = [[''BH1'', ''2.50'']]\<rparr> \<and>
   matchGroup (trim (editDocument ! 0)) = Some ''GEOL'' \<and>
   editDocument ! 2 = ''"DATA","BH1","2.50"'' \<and>
   matchGroup (trim (editDocument ! 1)) = None \<and>
   \<not> matchKeyword ''DATA'' (trim (editDocument ! 1)) \<and>
   \<not> matchKeyword ''GROUP'' (editDocument ! 1) \<and>
   getLineNumber editDocument
     \<lparr>name = ''GEOL'', gline = 0, headings = [''LOCA_ID'', ''GEOL_TOP''], headingLine = 1,
       dataCount = 1, units = [], types = [], data = [[''BH1'', ''2.50'']]\<rparr> rDATA 0 = Some 2 \<and>
   handleCellEdit \<lparr>panel = True, currentDocument = Some editDocument, currentGroup = Some ''GEOL''\<rparr>
       \<lparr>rowType = rDATA, rowIndex = 0, colIndex = 1, oldValue = ''2.50'', newValue = ''9.99''\<rparr> =
     \<lparr>panel = True,
      currentDocument = Some [''"GROUP","GEOL"'', ''"HEADING","LOCA_ID","GEOL_TOP"'', ''"DATA","BH1","9.99"''],
      currentGroup = Some ''GEOL''\<rparr> \<and>
   map_option dataCount (map_of (groups (parseDocument
       [''"GROUP","GEOL"'', ''"HEADING","LOCA_ID","GEOL_TOP"'', ''"DATA","BH1","9.99"''])) ''GEOL'') = Some 1\<close>
proof -
  let ?g = "\<lparr>name = ''GEOL'', gline = 0, headings = [''LOCA_ID'', ''GEOL_TOP''], headingLine = 1,
       dataCount = 1, units = [], types = [], data = [[''BH1'', ''2.50'']]\<rparr>"
  let ?s = "\<lparr>panel = True, currentDocument = Some editDocument, currentGroup = Some ''GEOL''\<rparr>"
  have p: "groups (parseDocument editDocument) = [(''GEOL'', ?g)]" by code_simp
  have g: "map_of (groups (parseDocument editDocument)) ''GEOL'' = Some ?g" by (simp add: p)
  have decl: "matchGroup (trim (editDocument ! 0)) = Some ''GEOL''" by code_simp
  have l: \<open>editDocument ! 2 = ''"DATA","BH1","2.50"''\<close> by (simp add: editDocument_def)
  have q1: "matchGroup (trim (editDocument ! 1)) = None" by code_simp
  have q2: "\<not> matchKeyword ''DATA'' (trim (editDocument ! 1))" by code_simp
  have q3: "\<not> matchKeyword ''GROUP'' (editDocument ! 1)" by code_simp
  have e: \<open>editDocument[2 := ''"DATA","BH1","9.99"''] =
      [''"GROUP","GEOL"'', ''"HEADING","LOCA_ID","GEOL_TOP"'', ''"DATA","BH1","9.99"'']\<close>
    by (simp add: editDocument_def)
  have h1: "currentDocument ?s = Some editDocument" by simp
  have h2: "currentGroup ?s = Some ''GEOL''" by simp
  have h4: "dataCount ?g = 1" by simp
  have h5: "matchGroup (trim (editDocument ! gline ?g)) = Some ''GEOL''" using decl by simp
  have h6: "gline ?g < 2" by simp
  have h7: "2 < length editDocument" by (simp add: editDocument_def)
  have one: "j = 1" if "gline ?g < j \<and> j < 2" for j :: nat using that by simp
  have h9: "\<forall>j. gline ?g < j \<and> j < 2 \<longrightarrow>
      matchGroup (trim (editDocument ! j)) = None \<and> \<not> matchKeyword ''DATA'' (trim (editDocument ! j))"
    using one q1 q2 by blast
  have h10: "2 \<le> gline ?g + 10" by simp
  have h11: "\<forall>j. gline ?g < j \<and> j < 2 \<longrightarrow> \<not> matchKeyword ''GROUP'' (editDocument ! j)"
    using one q3 by blast
  note inst = cell_edit_replaces_quoted_content [OF h1 h2 g h4 h5 h6 h7 l h9 h10 h11]
  have ln: "getLineNumber editDocument ?g rDATA 0 = Some 2"
    using inst [THEN conjunct2, THEN conjunct1] .
  have a: \<open>handleCellEdit ?s
       \<lparr>rowType = rDATA, rowIndex = 0, colIndex = 1, oldValue = ''2.50'', newValue = ''9.99''\<rparr> =
     \<lparr>panel = True,
      currentDocument = Some [''"GROUP","GEOL"'', ''"HEADING","LOCA_ID","GEOL_TOP"'', ''"DATA","BH1","9.99"''],
      currentGroup = Some ''GEOL''\<rparr>\<close>
    using inst [THEN conjunct2, THEN conjunct2, THEN conjunct2, THEN conjunct2, THEN conjunct1]
    by (simp only: e) simp
  have b: \<open>map_option dataCount (map_of (groups (parseDocument
       [''"GROUP","GEOL"'', ''"HEADING","LOCA_ID","GEOL_TOP"'', ''"DATA","BH1","9.99"''])) ''GEOL'') = Some 1\<close>
    using inst [THEN conjunct2, THEN conjunct2, THEN conjunct2, THEN conjunct2, THEN conjunct2]
    by (simp only: e)
  show ?thesis by (intro conjI g decl l q1 q2 q3 ln a b)
qed

end
